theory Spec2Isabelle
  imports Main "HOL-Library.Log_Nat"
begin

section \<open>Python floats: IEEE 754 binary64 over the rationals\<close>

text \<open>
  A Python \<open>float\<close> is an IEEE 754 binary64 value. Every finite one is a rational number,
  so a finite float is modelled by its exact value; the two infinities and NaN are separate
  constructors. The two zeros are identified: no branch of the program tells them apart
  (division by either raises, both are falsy, \<open>ceil\<close> of either is 0).
  Every arithmetic operation computes the exact rational result and rounds it to the
  nearest double, ties to even (\<open>round_double\<close>), as the hardware does.
\<close>

datatype pyfloat = Fin rat | PInf | NInf | NaN

text \<open>\<open>ilog2 x\<close> is the binary exponent of \<open>x \<noteq> 0\<close>: \<open>2 ^ ilog2 x \<le> \<bar>x\<bar> < 2 ^ (ilog2 x + 1)\<close>.\<close>

definition ilog2 :: "rat \<Rightarrow> int" where
  "ilog2 x = (let (p, q) = quotient_of \<bar>x\<bar>; e = bitlen p - bitlen q
              in if 2 powi e \<le> \<bar>x\<bar> then e else e - 1)"

text \<open>
  The exponent of the unit in the last place: 53 significant bits for normal numbers,
  and the fixed quantum \<open>2 ^ -1074\<close> for subnormal ones.
\<close>

definition fexp :: "rat \<Rightarrow> int" where
  "fexp x = max (ilog2 x - 52) (- 1074)"

definition round_half_even :: "rat \<Rightarrow> int" where
  "round_half_even x =
     (let f = \<lfloor>x\<rfloor>; r = x - of_int f
      in if r < 1 / 2 then f else if 1 / 2 < r then f + 1
         else if even f then f else f + 1)"

definition rnd :: "rat \<Rightarrow> rat" where
  "rnd x = of_int (round_half_even (x / 2 powi fexp x)) * 2 powi fexp x"

definition round_double :: "rat \<Rightarrow> pyfloat" where
  "round_double x =
     (let y = rnd x
      in if 2 ^ 1024 \<le> \<bar>y\<bar> then (if 0 < x then PInf else NInf) else Fin y)"

text \<open>A rational is a double when rounding leaves it as it is.\<close>

definition is_double :: "rat \<Rightarrow> bool" where
  "is_double x = (round_double x = Fin x)"

fun fneg :: "pyfloat \<Rightarrow> pyfloat" where
  "fneg (Fin a) = Fin (- a)"
| "fneg PInf = NInf"
| "fneg NInf = PInf"
| "fneg NaN = NaN"

text \<open>An infinity times (or divided by) a finite value \<open>b\<close>.\<close>

definition inf_times :: "pyfloat \<Rightarrow> rat \<Rightarrow> pyfloat" where
  "inf_times i b = (if b = 0 then NaN else if 0 < b then i else fneg i)"

fun fadd :: "pyfloat \<Rightarrow> pyfloat \<Rightarrow> pyfloat" where
  "fadd (Fin a) (Fin b) = round_double (a + b)"
| "fadd NaN _ = NaN"
| "fadd _ NaN = NaN"
| "fadd PInf NInf = NaN"
| "fadd NInf PInf = NaN"
| "fadd PInf _ = PInf"
| "fadd _ PInf = PInf"
| "fadd NInf _ = NInf"
| "fadd _ NInf = NInf"

fun fmul :: "pyfloat \<Rightarrow> pyfloat \<Rightarrow> pyfloat" where
  "fmul (Fin a) (Fin b) = round_double (a * b)"
| "fmul NaN _ = NaN"
| "fmul _ NaN = NaN"
| "fmul (Fin a) i = inf_times i a"
| "fmul i (Fin b) = inf_times i b"
| "fmul PInf i = i"
| "fmul NInf i = fneg i"

section \<open>Python operations used by the program\<close>

datatype error = ZeroDivisionError | OverflowError | ValueError | ExternalError string

text \<open>\<open>a / b\<close> on floats: Python raises on a zero divisor before it divides.\<close>

fun py_fdiv :: "pyfloat \<Rightarrow> pyfloat \<Rightarrow> error + pyfloat" where
  "py_fdiv a (Fin b) =
     (if b = 0 then Inl ZeroDivisionError
      else case a of
        Fin a' \<Rightarrow> Inr (round_double (a' / b))
      | NaN \<Rightarrow> Inr NaN
      | i \<Rightarrow> Inr (inf_times i b))"
| "py_fdiv a NaN = Inr NaN"
| "py_fdiv (Fin a) i = Inr (Fin 0)"
| "py_fdiv a i = Inr NaN"

text \<open>
  An \<open>int\<close> operand of a float operation is converted first: correctly rounded,
  \<open>OverflowError\<close> when it is too large.
\<close>

definition int_to_float :: "int \<Rightarrow> error + pyfloat" where
  "int_to_float n =
     (case round_double (of_int n) of Fin y \<Rightarrow> Inr (Fin y) | _ \<Rightarrow> Inl OverflowError)"

definition py_truediv :: "int \<Rightarrow> pyfloat \<Rightarrow> error + pyfloat" where
  "py_truediv n b = (case int_to_float n of Inl e \<Rightarrow> Inl e | Inr a \<Rightarrow> py_fdiv a b)"

definition py_mul :: "int \<Rightarrow> pyfloat \<Rightarrow> error + pyfloat" where
  "py_mul n b = (case int_to_float n of Inl e \<Rightarrow> Inl e | Inr a \<Rightarrow> Inr (fmul a b))"

text \<open>\<open>int(math.ceil(x))\<close>.\<close>

fun ceil :: "pyfloat \<Rightarrow> error + int" where
  "ceil (Fin x) = Inr \<lceil>x\<rceil>"
| "ceil NaN = Inl ValueError"
| "ceil _ = Inl OverflowError"

text \<open>
  The values \<open>speed\<close> can hold: \<open>None\<close> (the default), the \<open>int\<close> 0 that \<open>sum\<close> returns
  for an empty list, or a float.
\<close>

datatype pyval = PyNone | PyInt int | PyFloat pyfloat

fun truthy :: "pyval \<Rightarrow> bool" where
  "truthy PyNone = False"
| "truthy (PyInt n) = (n \<noteq> 0)"
| "truthy (PyFloat f) = (f \<noteq> Fin 0)"

text \<open>
  \<open>sum(speeds)\<close>: starts from the \<open>int\<close> 0 and adds from left to right
  (plain additions, without the compensation that newer interpreters apply).
\<close>

fun py_sum :: "pyfloat list \<Rightarrow> pyval" where
  "py_sum [] = PyInt 0"
| "py_sum (x # xs) = PyFloat (foldl fadd (fadd (Fin 0) x) xs)"

subsection \<open>Decimal strings\<close>

definition digit_char :: "nat \<Rightarrow> char" where
  "digit_char d = char_of (48 + d)"

fun show_nat :: "nat \<Rightarrow> string" where
  "show_nat n = (if n < 10 then [digit_char n] else show_nat (n div 10) @ [digit_char (n mod 10)])"

definition show_int :: "int \<Rightarrow> string" where
  "show_int i = (if i < 0 then CHR ''-'' # show_nat (nat (- i)) else show_nat (nat i))"

definition is_digit :: "char \<Rightarrow> bool" where
  "is_digit c = (48 \<le> (of_char c :: nat) \<and> (of_char c :: nat) \<le> 57)"

definition digits_val :: "string \<Rightarrow> nat" where
  "digits_val ds = foldl (\<lambda>v c. 10 * v + (of_char c - 48)) 0 ds"

definition is_space :: "char \<Rightarrow> bool" where
  "is_space c = (c \<in> set [CHR '' '', CHR 0x09, CHR 0x0A, CHR 0x0B, CHR 0x0C, CHR 0x0D])"

text \<open>\<open>bytes.strip()\<close>.\<close>

definition strip :: "string \<Rightarrow> string" where
  "strip s = rev (dropWhile is_space (rev (dropWhile is_space s)))"

definition to_lower :: "char \<Rightarrow> char" where
  "to_lower c = (if 65 \<le> (of_char c :: nat) \<and> (of_char c :: nat) \<le> 90
                 then char_of ((of_char c :: nat) + 32) else c)"

subsection \<open>The builtin \<open>float\<close> on a byte string\<close>

text \<open>
  An underscore is accepted only between two digits, and is dropped; \<open>prev\<close> is the
  character before the current one.
\<close>

fun drop_underscores :: "char \<Rightarrow> string \<Rightarrow> string option" where
  "drop_underscores prev [] = (if prev = CHR ''_'' then None else Some [])"
| "drop_underscores prev (c # cs) =
     (if c = CHR ''_'' then
        (if is_digit prev then drop_underscores c cs else None)
      else if prev = CHR ''_'' \<and> \<not> is_digit c then None
      else map_option (Cons c) (drop_underscores c cs))"

definition take_sign :: "string \<Rightarrow> bool \<times> string" where
  "take_sign s =
     (case s of
        c # cs \<Rightarrow> if c = CHR ''-'' then (True, cs) else if c = CHR ''+'' then (False, cs)
                  else (False, s)
      | [] \<Rightarrow> (False, s))"

definition parse_exponent :: "string \<Rightarrow> int option" where
  "parse_exponent r =
     (case r of
        [] \<Rightarrow> Some 0
      | c # r' \<Rightarrow>
          if c = CHR ''e'' \<or> c = CHR ''E'' then
            (let (neg, d) = take_sign r'
             in if d \<noteq> [] \<and> list_all is_digit d
                then Some (if neg then - int (digits_val d) else int (digits_val d))
                else None)
          else None)"

definition parse_number :: "string \<Rightarrow> pyfloat option" where
  "parse_number u =
     (let ip = takeWhile is_digit u; r1 = dropWhile is_digit u;
          (fp, r2) = (case r1 of
                        c # r \<Rightarrow> if c = CHR ''.''
                                  then (takeWhile is_digit r, dropWhile is_digit r)
                                  else ([], r1)
                      | [] \<Rightarrow> ([], r1))
      in if ip = [] \<and> fp = [] then None
         else case parse_exponent r2 of
                None \<Rightarrow> None
              | Some e \<Rightarrow>
                  Some (round_double
                          (of_nat (digits_val (ip @ fp)) * 10 powi (e - int (length fp)))))"

definition parse_abs :: "string \<Rightarrow> pyfloat option" where
  "parse_abs u =
     (let l = map to_lower u
      in if l = ''inf'' \<or> l = ''infinity'' then Some PInf
         else if l = ''nan'' then Some NaN
         else parse_number u)"

definition py_float :: "string \<Rightarrow> error + pyfloat" where
  "py_float s =
     (case drop_underscores (CHR 0x00) s of
        None \<Rightarrow> Inl ValueError
      | Some t \<Rightarrow>
          (let (neg, u) = take_sign (strip t)
           in case parse_abs u of
                None \<Rightarrow> Inl ValueError
              | Some f \<Rightarrow> Inr (if neg then fneg f else f)))"

section \<open>The program\<close>

subsection \<open>Data\<close>

text \<open>The parsed command line (\<open>argparse.Namespace\<close>); \<open>--log-level\<close> only sets up logging.\<close>

record args =
  proto :: int
  host :: string
  ping :: string
  direction :: string
  length_arg :: int
  interval :: pyfloat
  warmup :: int
  num :: int
  idle :: bool

text \<open>
  What the program reads from a finished ping (\<open>icmplib.Host\<close>). The round-trip times
  are finite floats.
\<close>

record ping_result =
  rtts :: "rat list"
  packets_sent :: int
  packet_loss :: pyfloat
  min_rtt :: pyfloat
  avg_rtt :: pyfloat
  max_rtt :: pyfloat
  jitter :: pyfloat

text \<open>A netperf subprocess, by what it will have written and returned when it ends.\<close>

record process =
  stdout :: string
  returncode :: int

text \<open>
  The collaborators outside the repository, as functions of what the program passes them:
  the \<open>k\<close>-th call of \<open>asyncio.create_subprocess_exec(NETPERF, *shlex.split(cmd))\<close>,
  \<open>icmplib.async_ping\<close> and \<open>numpy.percentile\<close>. Each may raise.
\<close>

record env =
  create_subprocess_exec :: "nat \<Rightarrow> string \<Rightarrow> error + process"
  async_ping :: "string \<Rightarrow> int \<Rightarrow> pyfloat \<Rightarrow> error + ping_result"
  percentile :: "rat list \<Rightarrow> int \<Rightarrow> error + pyfloat"

text \<open>
  The lines the program prints, by the values they format, and the observable effects.
  \<open>log.debug\<close> is not recorded.
\<close>

datatype line =
    PingingLine string int pyfloat int
  | NetperfsLine int string string string string pyfloat int
  | WarmingUpLine int
  | RunningTestLine
  | SpeedLine string pyval
  | LatencyLine int pyfloat
  | StatLine string pyfloat

datatype event =
    Print line
  | CreateSubprocess string string
  | Sleep int
  | AsyncPing string int pyfloat

definition NETPERF :: string where
  "NETPERF = ''netperf''"

subsection \<open>\<open>run_netperf\<close> and \<open>get_netperf\<close>\<close>

definition netperf_cmd :: "int \<Rightarrow> string \<Rightarrow> string \<Rightarrow> int \<Rightarrow> string" where
  "netperf_cmd pr h d l =
     ''-'' @ show_int pr @ '' -H '' @ h @ '' -t '' @ d @ '' -l '' @ show_int l @ '' -v 0 -P 0''"

text \<open>The event is recorded when the subprocess has been created.\<close>

definition run_netperf ::
  "env \<Rightarrow> nat \<Rightarrow> int \<Rightarrow> string \<Rightarrow> string \<Rightarrow> int \<Rightarrow> event list \<times> (error + process)" where
  "run_netperf ev k pr h d l =
     (let cmd = netperf_cmd pr h d l
      in case create_subprocess_exec ev k cmd of
           Inl e \<Rightarrow> ([], Inl e)
         | Inr p \<Rightarrow> ([CreateSubprocess NETPERF cmd], Inr p))"

definition get_netperf :: "process \<Rightarrow> error + pyfloat" where
  "get_netperf proc = py_float (strip (stdout proc))"

subsection \<open>\<open>print_result\<close>\<close>

definition print_result ::
  "(rat list \<Rightarrow> int \<Rightarrow> error + pyfloat) \<Rightarrow> args \<Rightarrow> ping_result \<Rightarrow> pyval
     \<Rightarrow> event list \<times> (error + unit)" where
  "print_result pct a result speed =
     (let sorted_rtts = sort (rtts result);
          t0 = (if truthy speed
                then [Print (SpeedLine (if direction a = ''up'' then ''Upload'' else ''Download'')
                                speed)]
                else []);
          t1 = t0 @ [Print (LatencyLine (packets_sent result) (fmul (packet_loss result) (Fin 100))),
                     Print (StatLine ''Min:'' (min_rtt result))]
      in case pct sorted_rtts 10 of
           Inl e \<Rightarrow> (t1, Inl e)
         | Inr p10 \<Rightarrow>
             (let t2 = t1 @ [Print (StatLine ''10pct:'' p10)]
              in case pct sorted_rtts 50 of
                   Inl e \<Rightarrow> (t2, Inl e)
                 | Inr p50 \<Rightarrow>
                     (let t3 = t2 @ [Print (StatLine ''Median:'' p50),
                                     Print (StatLine ''Avg:'' (avg_rtt result))]
                      in case pct sorted_rtts 90 of
                           Inl e \<Rightarrow> (t3, Inl e)
                         | Inr p90 \<Rightarrow>
                             (t3 @ [Print (StatLine ''90pct:'' p90),
                                    Print (StatLine ''Max:'' (max_rtt result)),
                                    Print (StatLine ''Jitter:'' (jitter result))],
                              Inr ()))))"

subsection \<open>\<open>main\<close>\<close>

text \<open>Lines 46 and 47: the number of pings and the whole-second length of the test.\<close>

definition derived_timing :: "int \<Rightarrow> pyfloat \<Rightarrow> error + (int \<times> int)" where
  "derived_timing len iv =
     (case py_truediv len iv of
        Inl e \<Rightarrow> Inl e
      | Inr q \<Rightarrow>
          (case ceil q of
             Inl e \<Rightarrow> Inl e
           | Inr count \<Rightarrow>
               (case py_mul count iv of
                  Inl e \<Rightarrow> Inl e
                | Inr p \<Rightarrow>
                    (case ceil p of
                       Inl e \<Rightarrow> Inl e
                     | Inr len' \<Rightarrow> Inr (count, len')))))"

text \<open>The list comprehension of lines 60 and 61: \<open>n\<close> launches, one after the other.\<close>

fun launch_all ::
  "env \<Rightarrow> int \<Rightarrow> string \<Rightarrow> string \<Rightarrow> int \<Rightarrow> nat \<Rightarrow> nat \<Rightarrow> event list \<times> (error + process list)" where
  "launch_all ev pr h d l k 0 = ([], Inr [])"
| "launch_all ev pr h d l k (Suc n) =
     (case run_netperf ev k pr h d l of
        (t, Inl e) \<Rightarrow> (t, Inl e)
      | (t, Inr p) \<Rightarrow>
          (case launch_all ev pr h d l (Suc k) n of
             (t', Inl e) \<Rightarrow> (t @ t', Inl e)
           | (t', Inr ps) \<Rightarrow> (t @ t', Inr (p # ps))))"

text \<open>
  \<open>asyncio.gather\<close>: all results in order, or the exception of a failed awaitable
  (here each can only raise \<open>ValueError\<close>).
\<close>

fun gather :: "(error + 'a) list \<Rightarrow> error + 'a list" where
  "gather [] = Inr []"
| "gather (r # rs) =
     (case r of
        Inl e \<Rightarrow> Inl e
      | Inr v \<Rightarrow> (case gather rs of Inl e \<Rightarrow> Inl e | Inr vs \<Rightarrow> Inr (v # vs)))"

definition main :: "env \<Rightarrow> args \<Rightarrow> event list \<times> (error + unit)" where
  "main ev a =
     (let direction' = (if direction a = ''up'' then ''TCP_STREAM'' else ''TCP_MAERTS'')
      in case derived_timing (length_arg a) (interval a) of
           Inl e \<Rightarrow> ([], Inl e)
         | Inr (count, len) \<Rightarrow>
             if idle a then
               (let t = [Print (PingingLine (ping a) count (interval a) len),
                         AsyncPing (ping a) count (interval a)]
                in case async_ping ev (ping a) count (interval a) of
                     Inl e \<Rightarrow> (t, Inl e)
                   | Inr res \<Rightarrow>
                       (case print_result (percentile ev) a res PyNone of
                          (t', r) \<Rightarrow> (t @ t', r)))
             else
               (let proto' = (if proto a = 4 then ''ipv4'' else ''ipv6'')
                in case py_truediv 1 (interval a) of
                     Inl e \<Rightarrow> ([], Inl e)
                   | Inr rate \<Rightarrow>
                       (let t0 = [Print (NetperfsLine (num a) proto' (direction a) (host a)
                                           (ping a) rate len)]
                        in case launch_all ev (proto a) (host a) direction'
                                  (len + warmup a + 2) 0 (nat (num a)) of
                             (t1, Inl e) \<Rightarrow> (t0 @ t1, Inl e)
                           | (t1, Inr procs) \<Rightarrow>
                               (let t2 = (if 0 < warmup a
                                          then [Print (WarmingUpLine (warmup a)), Sleep (warmup a)]
                                          else []);
                                    t3 = [Print RunningTestLine,
                                          AsyncPing (ping a) count (interval a)];
                                    t = t0 @ t1 @ t2 @ t3
                                in case gather (map get_netperf procs) of
                                     Inl e \<Rightarrow> (t, Inl e)
                                   | Inr speeds \<Rightarrow>
                                       (case async_ping ev (ping a) count (interval a) of
                                          Inl e \<Rightarrow> (t, Inl e)
                                        | Inr res \<Rightarrow>
                                            (case print_result (percentile ev) a res
                                                    (py_sum speeds) of
                                               (t', r) \<Rightarrow> (t @ t', r)))))))"

section \<open>Observations on a trace\<close>

fun is_speed_line :: "event \<Rightarrow> bool" where
  "is_speed_line (Print (SpeedLine d s)) = True"
| "is_speed_line _ = False"

fun is_launch :: "event \<Rightarrow> bool" where
  "is_launch (CreateSubprocess p c) = True"
| "is_launch _ = False"

fun is_probe :: "event \<Rightarrow> bool" where
  "is_probe (AsyncPing h c i) = True"
| "is_probe _ = False"

text \<open>The lines of the statistics report, as opposed to the progress messages.\<close>

fun is_report :: "event \<Rightarrow> bool" where
  "is_report (Print (SpeedLine d s)) = True"
| "is_report (Print (LatencyLine n l)) = True"
| "is_report (Print (StatLine l v)) = True"
| "is_report _ = False"

text \<open>No addition of the running sum rounds: each partial sum is a double.\<close>

fun exact_sums :: "rat \<Rightarrow> rat list \<Rightarrow> bool" where
  "exact_sums acc [] = True"
| "exact_sums acc (x # xs) = (is_double (acc + x) \<and> exact_sums (acc + x) xs)"

section \<open>Sample environments and inputs\<close>

text \<open>
  Modelled from the spec: \<open>numpy.percentile\<close> is not part of the repository. Section 4.4
  gives it: the samples sorted ascending, rank \<open>p / 100 * (n - 1)\<close>, the value interpolated
  linearly between the samples at the floor and the ceiling of the rank; an empty sample set
  is an error.
\<close>

definition percentile_linear :: "rat list \<Rightarrow> int \<Rightarrow> error + pyfloat" where
  "percentile_linear xs p =
     (if xs = [] then Inl (ExternalError ''InsufficientDataError'')
      else
        (let rank = of_int p / 100 * of_nat (length xs - 1);
             lo = nat \<lfloor>rank\<rfloor>; hi = nat \<lceil>rank\<rceil>; g = rank - of_int \<lfloor>rank\<rfloor>
         in Inr (round_double (xs ! lo + (xs ! hi - xs ! lo) * g))))"

text \<open>A ping that got one answer of 42 ms, and one that got none.\<close>

definition one_sample :: ping_result where
  "one_sample = \<lparr>rtts = [42], packets_sent = 1, packet_loss = Fin 0, min_rtt = Fin 42,
                  avg_rtt = Fin 42, max_rtt = Fin 42, jitter = Fin 0\<rparr>"

definition no_sample :: ping_result where
  "no_sample = \<lparr>rtts = [], packets_sent = 5, packet_loss = Fin 1, min_rtt = Fin 0,
                 avg_rtt = Fin 0, max_rtt = Fin 0, jitter = Fin 0\<rparr>"

text \<open>
  An environment in which the \<open>k\<close>-th netperf writes \<open>outs ! k\<close> and exits with status
  \<open>rc\<close>, and the ping gets one answer.
\<close>

definition sample_env :: "string list \<Rightarrow> int \<Rightarrow> env" where
  "sample_env outs rc =
     \<lparr>create_subprocess_exec =
        (\<lambda>k cmd. if k < length outs then Inr \<lparr>stdout = outs ! k, returncode = rc\<rparr>
                 else Inl (ExternalError ''OSError'')),
      async_ping = (\<lambda>h c i. Inr one_sample),
      percentile = percentile_linear\<rparr>"

text \<open>The command line \<open>--length 5 --interval 1 --warmup 0 --num n\<close>, other flags by default.\<close>

definition sample_args :: "int \<Rightarrow> args" where
  "sample_args n =
     \<lparr>proto = 4, host = ''netperf-west.bufferbloat.net'', ping = ''1.1.1.1'',
      direction = ''up'', length_arg = 5, interval = Fin 1, warmup = 0, num = n,
      idle = False\<rparr>"

section \<open>Properties of rounding\<close>

lemma powi_two_pos [simp]: "0 < (2::rat) powi e"
  by (simp add: power_int_def)

lemma powi_two_less_iff [simp]: "(2::rat) powi a < 2 powi b \<longleftrightarrow> a < b"
proof
  assume l: "(2::rat) powi a < 2 powi b"
  show "a < b"
  proof (rule ccontr)
    assume "\<not> a < b"
    then have "b \<le> a" by simp
    then have "(2::rat) powi b \<le> 2 powi a" by (rule power_int_increasing) simp
    with l show False by simp
  qed
next
  assume "a < b"
  then show "(2::rat) powi a < 2 powi b" by (rule power_int_strict_increasing) simp
qed

lemma powi_two_le_iff [simp]: "(2::rat) powi a \<le> 2 powi b \<longleftrightarrow> a \<le> b"
  using powi_two_less_iff [of b a] by (simp only: not_less [symmetric])

lemma ilog2_bounds:
  assumes "x \<noteq> 0"
  shows "2 powi ilog2 x \<le> \<bar>x\<bar>" and "\<bar>x\<bar> < 2 powi (ilog2 x + 1)"
proof -
  obtain p q where pq: "quotient_of \<bar>x\<bar> = (p, q)" by (cases "quotient_of \<bar>x\<bar>")
  have q: "0 < q" using pq by (rule quotient_of_denom_pos)
  have ax: "\<bar>x\<bar> = of_int p / of_int q" using pq by (rule quotient_of_div)
  have p: "0 < p"
  proof -
    have "0 < \<bar>x\<bar>" using assms by simp
    then show ?thesis using q by (simp add: ax zero_less_divide_iff)
  qed
  define e where "e = bitlen p - bitlen q"
  have bp: "1 \<le> bitlen p" "1 \<le> bitlen q"
    using p q bitlen_eq_zero_iff [of p] bitlen_eq_zero_iff [of q] bitlen_nonneg [of p] bitlen_nonneg [of q]
    by linarith+
  have pl: "(2::rat) powi (bitlen p - 1) \<le> of_int p" and pu: "of_int p < (2::rat) powi bitlen p"
  proof -
    have "2 ^ nat (bitlen p - 1) \<le> p" "p < 2 ^ nat (bitlen p)" using bitlen_bounds [OF p] by auto
    then have "(of_int (2 ^ nat (bitlen p - 1)) :: rat) \<le> of_int p" "(of_int p :: rat) < of_int (2 ^ nat (bitlen p))"
      by (simp_all only: of_int_le_iff of_int_less_iff)
    then show "(2::rat) powi (bitlen p - 1) \<le> of_int p" "of_int p < (2::rat) powi bitlen p"
      using bp by (simp_all add: power_int_def)
  qed
  have ql: "(2::rat) powi (bitlen q - 1) \<le> of_int q" and qu: "of_int q < (2::rat) powi bitlen q"
  proof -
    have "2 ^ nat (bitlen q - 1) \<le> q" "q < 2 ^ nat (bitlen q)" using bitlen_bounds [OF q] by auto
    then have "(of_int (2 ^ nat (bitlen q - 1)) :: rat) \<le> of_int q" "(of_int q :: rat) < of_int (2 ^ nat (bitlen q))"
      by (simp_all only: of_int_le_iff of_int_less_iff)
    then show "(2::rat) powi (bitlen q - 1) \<le> of_int q" "of_int q < (2::rat) powi bitlen q"
      using bp by (simp_all add: power_int_def)
  qed
  have qpos: "(0::rat) < of_int q" using q by simp
  have lo: "2 powi (e - 1) \<le> \<bar>x\<bar>"
  proof -
    have "(2::rat) powi (e - 1) * of_int q \<le> 2 powi (e - 1) * 2 powi bitlen q"
      using qu by (simp add: less_imp_le)
    also have "\<dots> = 2 powi (bitlen p - 1)"
      by (simp add: e_def power_int_add [symmetric])
    also have "\<dots> \<le> of_int p" by (rule pl)
    finally show ?thesis using qpos by (simp add: ax pos_le_divide_eq)
  qed
  have hi: "\<bar>x\<bar> < 2 powi (e + 1)"
  proof -
    have "(of_int p :: rat) < 2 powi bitlen p" by (rule pu)
    also have "\<dots> = 2 powi (e + 1) * 2 powi (bitlen q - 1)"
      by (simp add: e_def power_int_add [symmetric])
    also have "\<dots> \<le> 2 powi (e + 1) * of_int q"
      using ql by simp
    finally show ?thesis using qpos by (simp add: ax pos_divide_less_eq)
  qed
  have il: "ilog2 x = (if 2 powi e \<le> \<bar>x\<bar> then e else e - 1)"
    by (simp add: ilog2_def pq e_def Let_def)
  show "2 powi ilog2 x \<le> \<bar>x\<bar>" using lo by (simp add: il)
  show "\<bar>x\<bar> < 2 powi (ilog2 x + 1)" using hi by (auto simp add: il not_le)
qed

lemma ilog2_unique:
  assumes "2 powi e \<le> \<bar>x\<bar>" and "\<bar>x\<bar> < 2 powi (e + 1)"
  shows "ilog2 x = e"
proof -
  have x: "x \<noteq> 0"
  proof
    assume "x = 0"
    then have "(2::rat) powi e \<le> 0" using assms(1) by simp
    then show False using powi_two_pos [of e] by linarith
  qed
  have "(2::rat) powi e < 2 powi (ilog2 x + 1)"
    using assms(1) ilog2_bounds(2) [OF x] by (rule le_less_trans)
  then have a: "e < ilog2 x + 1" by (simp only: powi_two_less_iff)
  have "(2::rat) powi ilog2 x < 2 powi (e + 1)"
    using ilog2_bounds(1) [OF x] assms(2) by (rule le_less_trans)
  then have b: "ilog2 x < e + 1" by (simp only: powi_two_less_iff)
  from a b show ?thesis by simp
qed


subsection \<open>Rounding to the nearest integer, ties to even\<close>

lemma rhe_cases:
  "round_half_even x = \<lfloor>x\<rfloor> \<or> round_half_even x = \<lfloor>x\<rfloor> + 1"
  by (simp add: round_half_even_def Let_def)

lemma rhe_of_int [simp]: "round_half_even (of_int n) = n"
  by (simp add: round_half_even_def Let_def)

lemma rhe_lower: "\<lfloor>x\<rfloor> \<le> round_half_even x"
  using rhe_cases [of x] by auto

lemma rhe_upper: "round_half_even x \<le> \<lceil>x\<rceil>"
proof (cases "x = of_int \<lfloor>x\<rfloor>")
  case True
  then have "round_half_even x = \<lfloor>x\<rfloor>" by (metis rhe_of_int)
  then show ?thesis by simp
next
  case False
  then have "\<lceil>x\<rceil> = \<lfloor>x\<rfloor> + 1" by (simp add: ceiling_altdef)
  then show ?thesis using rhe_cases [of x] by auto
qed

lemma rhe_mono:
  assumes "x \<le> y"
  shows "round_half_even x \<le> round_half_even y"
proof (cases "\<lfloor>x\<rfloor> = \<lfloor>y\<rfloor>")
  case True
  have "x - of_int \<lfloor>x\<rfloor> \<le> y - of_int \<lfloor>y\<rfloor>" using assms True by simp
  then show ?thesis
    by (auto simp add: round_half_even_def Let_def True)
next
  case False
  have "\<lfloor>x\<rfloor> \<le> \<lfloor>y\<rfloor>" using assms by (rule floor_mono)
  then have "\<lfloor>x\<rfloor> + 1 \<le> \<lfloor>y\<rfloor>" using False by simp
  moreover have "round_half_even x \<le> \<lfloor>x\<rfloor> + 1" using rhe_cases [of x] by auto
  ultimately show ?thesis using rhe_lower [of y] by linarith
qed

lemma rhe_error: "\<bar>of_int (round_half_even x) - x\<bar> \<le> 1 / 2"
proof -
  have "of_int \<lfloor>x\<rfloor> \<le> x" "x < of_int \<lfloor>x\<rfloor> + 1" by linarith+
  then show ?thesis
    by (auto simp add: round_half_even_def Let_def abs_le_iff)
qed

lemma rhe_nearest:
  assumes "\<bar>x - of_int n\<bar> < 1 / 2"
  shows "round_half_even x = n"
proof -
  have "\<bar>(of_int (round_half_even x) :: rat) - of_int n\<bar> < 1"
    using rhe_error [of x] assms by linarith
  then have "\<bar>round_half_even x - n\<bar> < 1"
    by (metis of_int_diff of_int_abs of_int_less_1_iff)
  then show ?thesis by simp
qed

lemma rhe_tie:
  "round_half_even (of_int n + 1 / 2) = (if even n then n else n + 1)"
proof -
  have "\<lfloor>(of_int n :: rat) + 1 / 2\<rfloor> = n" by linarith
  then show ?thesis by (simp add: round_half_even_def Let_def)
qed


subsection \<open>Rounding to a double\<close>

lemma rhe_zero [simp]: "round_half_even 0 = 0"
  by (simp add: round_half_even_def)

lemma rnd_zero [simp]: "rnd 0 = 0"
  by (simp add: rnd_def)

lemma fexp_ge: "- 1074 \<le> fexp x"
  by (simp add: fexp_def)

lemma fexp_eq:
  assumes "2 powi e \<le> \<bar>x\<bar>" and "\<bar>x\<bar> < 2 powi (e + 1)"
  shows "fexp x = max (e - 52) (- 1074)"
  using ilog2_unique [OF assms] by (simp add: fexp_def)

lemma scaled_bound:
  assumes "x \<noteq> 0"
  shows "\<bar>x / 2 powi fexp x\<bar> < 2 ^ 53"
proof -
  have "\<bar>x\<bar> < 2 powi (ilog2 x + 1)" using assms by (rule ilog2_bounds(2))
  also have "\<dots> \<le> 2 powi (fexp x + 53)" by (simp add: fexp_def)
  also have "\<dots> = 2 ^ 53 * 2 powi fexp x" by (simp add: power_int_add)
  finally have "\<bar>x\<bar> / 2 powi fexp x < 2 ^ 53"
    by (simp add: pos_divide_less_eq)
  then show ?thesis by simp
qed

lemma div_cancel: "(q::rat) \<noteq> 0 \<Longrightarrow> y = a * q \<Longrightarrow> y / q = a"
  by simp

lemma rnd_repr:
  assumes m: "\<bar>m\<bar> < 2 ^ 53" and k: "- 1074 \<le> k"
  shows "rnd (of_int m * 2 powi k) = of_int m * 2 powi k"
proof (cases "m = 0")
  case True
  then show ?thesis by simp
next
  case False
  define x :: rat where "x = of_int m * 2 powi k"
  have x0: "x \<noteq> 0" using False by (simp add: x_def)
  have "(of_int \<bar>m\<bar> :: rat) < of_int (2 ^ 53)" using m by (simp only: of_int_less_iff)
  then have "(of_int \<bar>m\<bar> :: rat) * 2 powi k < 2 ^ 53 * 2 powi k" by simp
  then have "\<bar>x\<bar> < 2 powi (k + 53)"
    by (simp add: x_def abs_mult power_int_add)
  then have "(2::rat) powi ilog2 x < 2 powi (k + 53)"
    using ilog2_bounds(1) [OF x0] by linarith
  then have "ilog2 x < k + 53" by (simp only: powi_two_less_iff)
  then have f: "fexp x \<le> k" using k by (simp add: fexp_def)
  define j where "j = nat (k - fexp x)"
  have kj: "k = fexp x + int j" using f by (simp add: j_def)
  have pk: "(2::rat) powi k = 2 ^ j * 2 powi fexp x"
    by (subst kj) (simp add: power_int_add)
  have "x = of_int m * 2 powi k" by (fact x_def)
  also have "\<dots> = of_int m * (2 ^ j * 2 powi fexp x)" by (simp only: pk)
  also have "\<dots> = of_int (m * 2 ^ j) * 2 powi fexp x" by simp
  finally have xs: "x = of_int (m * 2 ^ j) * 2 powi fexp x" .
  have "x / 2 powi fexp x = of_int (m * 2 ^ j)"
    by (rule div_cancel) (simp, rule xs)
  then have "round_half_even (x / 2 powi fexp x) = m * 2 ^ j"
    by (simp only: rhe_of_int)
  then have "rnd x = of_int (m * 2 ^ j) * 2 powi fexp x" by (simp only: rnd_def)
  then have "rnd x = x" using xs by simp
  then show ?thesis by (simp only: x_def)
qed

lemma rnd_of_int:
  assumes "\<bar>n\<bar> \<le> 2 ^ 53"
  shows "rnd (of_int n) = of_int n"
proof (cases "\<bar>n\<bar> < 2 ^ 53")
  case True
  then show ?thesis using rnd_repr [of n 0] by simp
next
  case False
  then have "n = 2 ^ 53 \<or> n = - (2 ^ 53)" using assms by linarith
  then show ?thesis
    using rnd_repr [of "2 ^ 52" 1] rnd_repr [of "- (2 ^ 52)" 1] by auto
qed

lemma rnd_idem: "rnd (rnd x) = rnd x"
proof (cases "x = 0")
  case True
  then show ?thesis by simp
next
  case False
  define n where "n = round_half_even (x / 2 powi fexp x)"
  have r: "rnd x = of_int n * 2 powi fexp x" by (simp add: rnd_def n_def)
  have b: "- (2 ^ 53) \<le> x / 2 powi fexp x" "x / 2 powi fexp x \<le> 2 ^ 53"
    using scaled_bound [OF False] by linarith+
  have "round_half_even (of_int (- (2 ^ 53))) \<le> n" "n \<le> round_half_even (of_int (2 ^ 53))"
    unfolding n_def using b by (auto intro!: rhe_mono)
  then have n: "- (2 ^ 53) \<le> n" "n \<le> 2 ^ 53" by (simp_all only: rhe_of_int)
  show ?thesis
  proof (cases "\<bar>n\<bar> < 2 ^ 53")
    case True
    then show ?thesis using rnd_repr [OF True fexp_ge [of x]] by (simp add: r)
  next
    case False
    then have "n = 2 ^ 53 \<or> n = - (2 ^ 53)" using n by linarith
    then have "rnd x = of_int (2 ^ 52) * 2 powi (fexp x + 1)
        \<or> rnd x = of_int (- (2 ^ 52)) * 2 powi (fexp x + 1)"
      by (auto simp add: r power_int_add)
    moreover have "- 1074 \<le> fexp x + 1" using fexp_ge [of x] by simp
    ultimately show ?thesis
      using rnd_repr [of "2 ^ 52" "fexp x + 1"] rnd_repr [of "- (2 ^ 52)" "fexp x + 1"]
      by auto
  qed
qed

subsection \<open>Rounding is monotone and accurate\<close>

lemma ilog2_mono:
  assumes "0 < x" and "x \<le> y"
  shows "ilog2 x \<le> ilog2 y"
proof -
  have x0: "x \<noteq> 0" and y0: "y \<noteq> 0" using assms by auto
  have "2 powi ilog2 x \<le> \<bar>x\<bar>" using x0 by (rule ilog2_bounds(1))
  also have "\<dots> \<le> \<bar>y\<bar>" using assms by simp
  also have "\<dots> < 2 powi (ilog2 y + 1)" using y0 by (rule ilog2_bounds(2))
  finally have "ilog2 x < ilog2 y + 1" by (simp only: powi_two_less_iff)
  then show ?thesis by simp
qed

lemma fexp_mono: "0 < x \<Longrightarrow> x \<le> y \<Longrightarrow> fexp x \<le> fexp y"
  using ilog2_mono [of x y] by (simp add: fexp_def)

lemma rnd_le_grid:
  assumes "x \<le> of_int N * 2 powi fexp x"
  shows "rnd x \<le> of_int N * 2 powi fexp x"
proof -
  have "x / 2 powi fexp x \<le> of_int N"
    using assms by (simp add: pos_divide_le_eq)
  then have "round_half_even (x / 2 powi fexp x) \<le> round_half_even (of_int N)"
    by (rule rhe_mono)
  then have "round_half_even (x / 2 powi fexp x) \<le> N" by (simp only: rhe_of_int)
  then have "(of_int (round_half_even (x / 2 powi fexp x)) :: rat) \<le> of_int N"
    by (simp only: of_int_le_iff)
  then show ?thesis by (simp add: rnd_def)
qed

lemma rnd_ge_grid:
  assumes "of_int N * 2 powi fexp x \<le> x"
  shows "of_int N * 2 powi fexp x \<le> rnd x"
proof -
  have "of_int N \<le> x / 2 powi fexp x"
    using assms by (simp add: pos_le_divide_eq)
  then have "round_half_even (of_int N) \<le> round_half_even (x / 2 powi fexp x)"
    by (rule rhe_mono)
  then have "N \<le> round_half_even (x / 2 powi fexp x)" by (simp only: rhe_of_int)
  then have "(of_int N :: rat) \<le> of_int (round_half_even (x / 2 powi fexp x))"
    by (simp only: of_int_le_iff)
  then show ?thesis by (simp add: rnd_def)
qed

lemma powi_two_split:
  assumes "f \<le> b"
  shows "(2::rat) powi b = of_int (2 ^ nat (b - f)) * 2 powi f"
proof -
  define j where "j = nat (b - f)"
  have b: "b = f + int j" using assms by (simp add: j_def)
  have "(2::rat) powi (f + int j) = 2 powi f * 2 ^ j" by (simp add: power_int_add)
  then show ?thesis unfolding j_def [symmetric] b by simp
qed

lemma rnd_le_pow:
  assumes "x \<le> 2 powi b" and "fexp x \<le> b"
  shows "rnd x \<le> 2 powi b"
  using rnd_le_grid [of x "2 ^ nat (b - fexp x)"] assms(1)
  by (simp only: powi_two_split [OF assms(2), symmetric])

lemma rnd_ge_pow:
  assumes "2 powi b \<le> x" and "fexp x \<le> b"
  shows "2 powi b \<le> rnd x"
  using rnd_ge_grid [of "2 ^ nat (b - fexp x)" x] assms(1)
  by (simp only: powi_two_split [OF assms(2), symmetric])

lemma rnd_mono:
  assumes x: "0 < x" and xy: "x \<le> y"
  shows "rnd x \<le> rnd y"
proof (cases "fexp x = fexp y")
  case True
  have "x / 2 powi fexp y \<le> y / 2 powi fexp y"
    using xy by (simp add: divide_right_mono)
  then have "round_half_even (x / 2 powi fexp y) \<le> round_half_even (y / 2 powi fexp y)"
    by (rule rhe_mono)
  then have "(of_int (round_half_even (x / 2 powi fexp y)) :: rat)
      \<le> of_int (round_half_even (y / 2 powi fexp y))"
    by (simp only: of_int_le_iff)
  then show ?thesis by (simp add: rnd_def True)
next
  case False
  have x0: "x \<noteq> 0" and y0: "y \<noteq> 0" and y: "0 < y" using x xy by auto
  have lt: "fexp x < fexp y" using fexp_mono [OF x xy] False by simp
  then have "- 1074 < fexp y" using fexp_ge [of x] by linarith
  then have fy: "fexp y = ilog2 y - 52" by (simp add: fexp_def max_def split: if_splits)
  have fx: "ilog2 x - 52 \<le> fexp x" by (simp add: fexp_def)
  define b where "b = ilog2 y"
  have "ilog2 x + 1 \<le> b" using lt fy fx by (simp add: b_def)
  then have "(2::rat) powi (ilog2 x + 1) \<le> 2 powi b" by (simp only: powi_two_le_iff)
  moreover have "x < 2 powi (ilog2 x + 1)" using ilog2_bounds(2) [OF x0] x by simp
  ultimately have xb: "x \<le> 2 powi b" by linarith
  have by': "2 powi b \<le> y" using ilog2_bounds(1) [OF y0] y by (simp add: b_def)
  have "fexp x \<le> b" using lt fy by (simp add: b_def)
  then have "rnd x \<le> 2 powi b" using xb by (intro rnd_le_pow)
  moreover have "fexp y \<le> b" using fy by (simp add: b_def)
  then have "2 powi b \<le> rnd y" using by' by (intro rnd_ge_pow)
  ultimately show ?thesis by linarith
qed

lemma rnd_rel_err:
  assumes "2 powi (- 1022) \<le> \<bar>x\<bar>"
  shows "\<bar>rnd x - x\<bar> \<le> \<bar>x\<bar> * 2 powi (- 53)"
proof -
  have x0: "x \<noteq> 0" using assms powi_two_pos [of "- 1022"] by auto
  have "(2::rat) powi (- 1022) < 2 powi (ilog2 x + 1)"
    using assms ilog2_bounds(2) [OF x0] by (rule le_less_trans)
  then have "- 1022 < ilog2 x + 1" by (simp only: powi_two_less_iff)
  then have f: "fexp x = ilog2 x - 52" by (simp add: fexp_def)
  define s where "s = x / 2 powi fexp x"
  have xs: "x = s * 2 powi fexp x" by (simp add: s_def)
  have "rnd x - x = (of_int (round_half_even s) - s) * 2 powi fexp x"
    by (simp add: rnd_def s_def algebra_simps)
  then have "\<bar>rnd x - x\<bar> = \<bar>of_int (round_half_even s) - s\<bar> * 2 powi fexp x"
    by (simp add: abs_mult)
  also have "\<dots> \<le> 1 / 2 * 2 powi fexp x"
    using rhe_error [of s] by (intro mult_right_mono) simp_all
  also have "\<dots> = 2 powi ilog2 x * 2 powi (- 53)"
    by (simp add: f power_int_diff)
  also have "\<dots> \<le> \<bar>x\<bar> * 2 powi (- 53)"
    using ilog2_bounds(1) [OF x0] by (intro mult_right_mono) simp_all
  finally show ?thesis .
qed

subsection \<open>Doubles and integers\<close>

lemma rnd_nonneg:
  assumes "0 \<le> x"
  shows "0 \<le> rnd x"
proof -
  have "0 \<le> x / 2 powi fexp x" using assms by simp
  then have "round_half_even 0 \<le> round_half_even (x / 2 powi fexp x)" by (rule rhe_mono)
  then have "(0::rat) \<le> of_int (round_half_even (x / 2 powi fexp x))" by simp
  then show ?thesis by (simp add: rnd_def)
qed

lemma round_double_pos:
  assumes "0 < x"
  shows "round_double x = (if 2 ^ 1024 \<le> rnd x then PInf else Fin (rnd x))"
proof -
  have "0 \<le> rnd x" using assms by (intro rnd_nonneg) simp
  then show ?thesis using assms by (simp add: round_double_def Let_def)
qed

lemma is_double_iff: "is_double x \<longleftrightarrow> rnd x = x \<and> \<bar>x\<bar> < 2 ^ 1024"
  by (auto simp add: is_double_def round_double_def Let_def)

lemma rhe_scaled_bound:
  assumes "x \<noteq> 0"
  shows "\<bar>round_half_even (x / 2 powi fexp x)\<bar> \<le> 2 ^ 53"
proof -
  have b: "- (2 ^ 53) \<le> x / 2 powi fexp x" "x / 2 powi fexp x \<le> 2 ^ 53"
    using scaled_bound [OF assms] by linarith+
  have "round_half_even (of_int (- (2 ^ 53))) \<le> round_half_even (x / 2 powi fexp x)"
    "round_half_even (x / 2 powi fexp x) \<le> round_half_even (of_int (2 ^ 53))"
    using b by (auto intro!: rhe_mono)
  then have "- (2 ^ 53) \<le> round_half_even (x / 2 powi fexp x)"
    "round_half_even (x / 2 powi fexp x) \<le> 2 ^ 53"
    by (simp_all only: rhe_of_int)
  then show ?thesis by linarith
qed

text \<open>A double is an integer, or lies within \<open>\<plusminus> 2 ^ 53\<close>.\<close>

lemma rnd_integer_or_small:
  "(\<exists>z. rnd x = of_int z) \<or> \<bar>rnd x\<bar> \<le> 2 ^ 53"
proof (cases "x = 0")
  case True
  then show ?thesis by simp
next
  case False
  define n where "n = round_half_even (x / 2 powi fexp x)"
  have r: "rnd x = of_int n * 2 powi fexp x" by (simp add: rnd_def n_def)
  have n: "\<bar>n\<bar> \<le> 2 ^ 53" unfolding n_def using False by (rule rhe_scaled_bound)
  show ?thesis
  proof (cases "0 \<le> fexp x")
    case True
    then have "(2::rat) powi fexp x = of_int (2 ^ nat (fexp x))"
      by (simp add: power_int_def)
    then have "rnd x = of_int (n * 2 ^ nat (fexp x))" by (simp add: r)
    then show ?thesis by blast
  next
    case False
    then have "fexp x \<le> 0" by simp
    then have "(2::rat) powi fexp x \<le> 2 powi 0" by (simp only: powi_two_le_iff)
    then have p: "(2::rat) powi fexp x \<le> 1" by simp
    have "(of_int \<bar>n\<bar> :: rat) \<le> of_int (2 ^ 53)" using n by (simp only: of_int_le_iff)
    then have "\<bar>of_int n :: rat\<bar> \<le> 2 ^ 53" by simp
    then have "\<bar>of_int n :: rat\<bar> * 2 powi fexp x \<le> 2 ^ 53 * 1"
      using p by (intro mult_mono) simp_all
    then have "\<bar>rnd x\<bar> \<le> 2 ^ 53" by (simp add: r abs_mult)
    then show ?thesis by simp
  qed
qed

lemma rnd_ceiling_rnd: "rnd (of_int \<lceil>rnd x\<rceil>) = of_int \<lceil>rnd x\<rceil>"
  using rnd_integer_or_small [of x]
proof
  assume "\<exists>z. rnd x = of_int z"
  then obtain z where z: "rnd x = of_int z" ..
  have "rnd (rnd x) = rnd x" by (rule rnd_idem)
  then show ?thesis by (simp add: z)
next
  assume a: "\<bar>rnd x\<bar> \<le> 2 ^ 53"
  then have "rnd x \<le> of_int (2 ^ 53)" "of_int (- (2 ^ 53)) \<le> rnd x" by simp_all
  then have "\<lceil>rnd x\<rceil> \<le> 2 ^ 53" "- (2 ^ 53) \<le> \<lceil>rnd x\<rceil>"
    by (simp_all only: ceiling_le_iff le_ceiling_iff)
  then have "\<bar>\<lceil>rnd x\<rceil>\<bar> \<le> 2 ^ 53" by linarith
  then show ?thesis by (rule rnd_of_int)
qed

lemma ceiling_rnd_finite:
  assumes "\<bar>rnd x\<bar> < 2 ^ 1024"
  shows "\<bar>of_int \<lceil>rnd x\<rceil> :: rat\<bar> < 2 ^ 1024"
  using rnd_integer_or_small [of x]
proof
  assume "\<exists>z. rnd x = of_int z"
  then obtain z where z: "rnd x = of_int z" ..
  then show ?thesis using assms by simp
next
  assume a: "\<bar>rnd x\<bar> \<le> 2 ^ 53"
  then have "rnd x \<le> of_int (2 ^ 53)" "of_int (- (2 ^ 53)) \<le> rnd x" by simp_all
  then have "\<lceil>rnd x\<rceil> \<le> 2 ^ 53" "- (2 ^ 53) \<le> \<lceil>rnd x\<rceil>"
    by (simp_all only: ceiling_le_iff le_ceiling_iff)
  then have "\<bar>\<lceil>rnd x\<rceil>\<bar> \<le> 2 ^ 53" by linarith
  then have "(of_int \<bar>\<lceil>rnd x\<rceil>\<bar> :: rat) \<le> of_int (2 ^ 53)" by (simp only: of_int_le_iff)
  then show ?thesis by simp
qed

text \<open>Converting the ceiling of a double back to a float is exact.\<close>

lemma int_to_float_ceiling:
  assumes "round_double x = Fin q"
  shows "int_to_float \<lceil>q\<rceil> = Inr (Fin (of_int \<lceil>q\<rceil>))"
proof -
  have q: "q = rnd x" and b: "\<bar>rnd x\<bar> < 2 ^ 1024"
    using assms by (auto simp add: round_double_def Let_def split: if_splits)
  have "round_double (of_int \<lceil>rnd x\<rceil>) = Fin (of_int \<lceil>rnd x\<rceil>)"
    using rnd_ceiling_rnd [of x] ceiling_rnd_finite [OF b]
    by (simp add: round_double_def Let_def)
  then show ?thesis by (simp add: int_to_float_def q)
qed

lemma rnd_floor_rnd: "rnd (of_int \<lfloor>rnd x\<rfloor>) = of_int \<lfloor>rnd x\<rfloor>"
  using rnd_integer_or_small [of x]
proof
  assume "\<exists>z. rnd x = of_int z"
  then obtain z where z: "rnd x = of_int z" ..
  have "rnd (rnd x) = rnd x" by (rule rnd_idem)
  then show ?thesis by (simp add: z)
next
  assume a: "\<bar>rnd x\<bar> \<le> 2 ^ 53"
  then have "rnd x \<le> of_int (2 ^ 53)" "of_int (- (2 ^ 53)) \<le> rnd x" by simp_all
  then have "\<lfloor>rnd x\<rfloor> \<le> 2 ^ 53" "- (2 ^ 53) \<le> \<lfloor>rnd x\<rfloor>"
    by (simp_all only: le_floor_iff) linarith
  then have "\<bar>\<lfloor>rnd x\<rfloor>\<bar> \<le> 2 ^ 53" by linarith
  then show ?thesis by (rule rnd_of_int)
qed

lemma rnd_one [simp]: "rnd 1 = 1"
  using rnd_of_int [of 1] by simp

text \<open>The quotient is rounded to a double that is not below the integer part it had.\<close>

lemma floor_rnd_le:
  assumes "0 < r"
  shows "of_int \<lfloor>rnd r\<rfloor> \<le> r \<or> rnd r = of_int \<lfloor>rnd r\<rfloor>"
proof (cases "of_int \<lfloor>rnd r\<rfloor> \<le> r")
  case True
  then show ?thesis by simp
next
  case False
  then have "r \<le> of_int \<lfloor>rnd r\<rfloor>" by simp
  then have "rnd r \<le> rnd (of_int \<lfloor>rnd r\<rfloor>)" using assms by (intro rnd_mono)
  then have "rnd r \<le> of_int \<lfloor>rnd r\<rfloor>" by (simp only: rnd_floor_rnd)
  moreover have "of_int \<lfloor>rnd r\<rfloor> \<le> rnd r" by simp
  ultimately show ?thesis by simp
qed

subsection \<open>Certificates for evaluating a rounding\<close>

lemma round_double_cert:
  assumes "2 powi e \<le> \<bar>x\<bar>" and "\<bar>x\<bar> < 2 powi (e + 1)"
    and "k = max (e - 52) (- 1074)"
    and "\<bar>x / 2 powi k - of_int n\<bar> < 1 / 2"
    and "\<bar>of_int n * 2 powi k :: rat\<bar> < 2 ^ 1024"
  shows "round_double x = Fin (of_int n * 2 powi k)"
proof -
  have f: "fexp x = k" using fexp_eq [OF assms(1,2)] assms(3) by simp
  have "round_half_even (x / 2 powi k) = n" using assms(4) by (rule rhe_nearest)
  then have "rnd x = of_int n * 2 powi k" by (simp add: rnd_def f)
  then show ?thesis using assms(5) by (simp add: round_double_def Let_def)
qed

lemma round_double_tie:
  assumes "2 powi e \<le> \<bar>x\<bar>" and "\<bar>x\<bar> < 2 powi (e + 1)"
    and "k = max (e - 52) (- 1074)"
    and "x / 2 powi k = of_int n + 1 / 2"
    and "even n"
    and "\<bar>of_int n * 2 powi k :: rat\<bar> < 2 ^ 1024"
  shows "round_double x = Fin (of_int n * 2 powi k)"
proof -
  have f: "fexp x = k" using fexp_eq [OF assms(1,2)] assms(3) by simp
  have "round_half_even (x / 2 powi k) = n"
    using assms(5) by (simp only: assms(4) rhe_tie if_True)
  then have "rnd x = of_int n * 2 powi k" by (simp add: rnd_def f)
  then show ?thesis using assms(6) by (simp add: round_double_def Let_def)
qed

lemma round_double_repr:
  assumes "\<bar>m\<bar> < 2 ^ 53" and "- 1074 \<le> k" and "\<bar>of_int m * 2 powi k :: rat\<bar> < 2 ^ 1024"
  shows "round_double (of_int m * 2 powi k) = Fin (of_int m * 2 powi k)"
  using rnd_repr [OF assms(1,2)] assms(3) by (simp add: round_double_def Let_def)

lemma round_double_of_int:
  assumes "\<bar>n\<bar> \<le> 2 ^ 53"
  shows "round_double (of_int n) = Fin (of_int n)"
proof -
  have "\<bar>of_int n :: rat\<bar> \<le> of_int (2 ^ 53)" using assms by (simp only: of_int_abs [symmetric] of_int_le_iff)
  then have "\<bar>of_int n :: rat\<bar> < 2 ^ 1024" by simp
  then show ?thesis using rnd_of_int [OF assms] by (simp add: round_double_def Let_def)
qed

section \<open>The derived timing\<close>

lemma int_to_float_small:
  assumes "\<bar>n\<bar> \<le> 2 ^ 53"
  shows "int_to_float n = Inr (Fin (of_int n))"
  using round_double_of_int [OF assms] by (simp add: int_to_float_def)

lemma timing_overflow:
  assumes L: "0 < L" "L < 2 ^ 52" and i: "0 < i" and ov: "2 ^ 1024 \<le> rnd (of_int L / i)"
  shows "derived_timing L (Fin i) = Inl OverflowError"
proof -
  have "\<bar>L\<bar> \<le> 2 ^ 53" using L by simp
  then have a: "int_to_float L = Inr (Fin (of_int L))" by (rule int_to_float_small)
  have "0 < of_int L / i" using L i by simp
  then have "round_double (of_int L / i) = PInf" using ov by (simp add: round_double_pos)
  then show ?thesis using i by (simp add: derived_timing_def py_truediv_def a)
qed

lemma timing_small_interval:
  assumes L: "0 < L" "L < 2 ^ 52" and i: "0 < i" "i < of_int L"
    and fin: "rnd (of_int L / i) < 2 ^ 1024"
  shows "\<exists>count cd. derived_timing L (Fin i) = Inr (count, cd)
           \<and> L \<le> cd \<and> of_int cd < of_int L + i + 1"
proof -
  define r where "r = of_int L / i"
  define q where "q = rnd r"
  define c where "c = \<lceil>q\<rceil>"
  define v where "v = of_int c * i"
  define p where "p = rnd v"
  define u :: rat where "u = 2 powi (- 53)"
  have Lq: "(of_int L :: rat) \<le> 2 ^ 52"
  proof -
    have "L \<le> 2 ^ 52" using L by simp
    then have "(of_int L :: rat) \<le> of_int (2 ^ 52)" by (simp only: of_int_le_iff)
    then show ?thesis by simp
  qed
  have ri: "r * i = of_int L" "i * r = of_int L" using i by (simp_all add: r_def)
  have r1: "1 \<le> r" using i by (simp add: r_def pos_le_divide_eq)
  have r0: "0 < r" using r1 by simp
  have q1: "1 \<le> q"
  proof -
    have "rnd 1 \<le> rnd r" using r1 by (intro rnd_mono) simp_all
    then show ?thesis by (simp add: q_def)
  qed
  have "(2::rat) powi (- 1022) \<le> 2 powi 0" by (simp only: powi_two_le_iff)
  then have "2 powi (- 1022) \<le> \<bar>r\<bar>" using r1 by simp
  then have "\<bar>rnd r - r\<bar> \<le> \<bar>r\<bar> * 2 powi (- 53)" by (rule rnd_rel_err)
  then have "\<bar>q - r\<bar> \<le> \<bar>r\<bar> * u" by (simp only: u_def q_def)
  moreover have "\<bar>r\<bar> = r" using r0 by simp
  ultimately have err: "q \<le> r + r * u" "r - r * u \<le> q"
    by linarith+
  have u0: "0 \<le> u" by (simp add: u_def)
  have half: "of_int L * u \<le> 1 / 2"
  proof -
    have "of_int L * u \<le> 2 ^ 52 * u"
      using Lq u0 by (intro mult_right_mono)
    moreover have "2 ^ 52 * u = 1 / 2" by (simp add: u_def)
    ultimately show ?thesis by linarith
  qed
  have cq: "q \<le> of_int c" by (simp add: c_def)
  have c1: "1 \<le> c"
  proof -
    have "(of_int 1 :: rat) \<le> of_int c" using q1 cq by simp
    then show ?thesis by (simp only: of_int_le_iff)
  qed
  have v0: "0 < v" using c1 i by (simp add: v_def)
  have ci: "1 \<le> \<lceil>i\<rceil>" using i by (simp add: le_ceiling_iff) 
  have iL: "\<lceil>i\<rceil> \<le> L" using i by (simp add: ceiling_le_iff)
  define m where "m = L + \<lceil>i\<rceil>"
  have mq: "(of_int m :: rat) = of_int L + of_int \<lceil>i\<rceil>" by (simp add: m_def)
  have vm: "v \<le> of_int m"
    using floor_rnd_le [OF r0]
  proof
    assume fl: "of_int \<lfloor>rnd r\<rfloor> \<le> r"
    have "c \<le> \<lfloor>q\<rfloor> + 1" unfolding c_def by linarith
    then have "(of_int c :: rat) \<le> of_int (\<lfloor>q\<rfloor> + 1)" by (simp only: of_int_le_iff)
    then have "of_int c \<le> r + 1" using fl by (simp add: q_def)
    then have "of_int c * i \<le> (r + 1) * i" using i by (intro mult_right_mono) simp_all
    then have "v \<le> of_int L + i" by (simp add: v_def algebra_simps ri)
    moreover have "i \<le> of_int \<lceil>i\<rceil>" by simp
    ultimately show ?thesis using mq by linarith
  next
    assume "rnd r = of_int \<lfloor>rnd r\<rfloor>"
    then obtain z where z: "rnd r = of_int z" ..
    have "of_int c = q" by (simp add: c_def q_def z)
    then have "of_int c \<le> r + r * u" using err by simp
    then have "of_int c * i \<le> (r + r * u) * i"
      using i by (intro mult_right_mono) simp_all
    also have "\<dots> = of_int L + of_int L * u"
      by (simp add: algebra_simps ri)
    also have "\<dots> \<le> of_int L + 1 / 2" using half by simp
    finally have "v \<le> of_int L + 1 / 2" by (simp add: v_def)
    moreover have "(1::rat) \<le> of_int \<lceil>i\<rceil>" using i by simp
    ultimately show ?thesis using mq by linarith
  qed
  have p52: "(2::int) ^ 52 = 4503599627370496" and p53: "(2::int) ^ 53 = 9007199254740992"
    by simp_all
  have m53: "\<bar>m\<bar> \<le> 2 ^ 53" using L ci iL unfolding m_def p52 p53 by linarith
  then have rm: "rnd (of_int m) = of_int m" by (rule rnd_of_int)
  have pm: "p \<le> of_int m"
  proof -
    have "rnd v \<le> rnd (of_int m)" using v0 vm by (rule rnd_mono)
    then show ?thesis by (simp add: p_def rm)
  qed
  have p0: "0 \<le> p" unfolding p_def using v0 by (intro rnd_nonneg) simp
  have pfin: "p < 2 ^ 1024"
  proof -
    have "m \<le> 2 ^ 53" using m53 by linarith
    then have "(of_int m :: rat) \<le> of_int (2 ^ 53)" by (simp only: of_int_le_iff)
    then show ?thesis using pm by simp
  qed
  define h :: rat where "h = of_int (2 * L - 1) * 2 powi (- 1)"
  have hL: "h = of_int L - 1 / 2" by (simp add: h_def algebra_simps)
  have "\<bar>2 * L - 1\<bar> < 2 ^ 53" using L unfolding p52 p53 by linarith
  then have rh: "rnd h = h" unfolding h_def by (intro rnd_repr) simp_all
  have h0: "0 < h"
  proof -
    have "1 \<le> L" using L by simp
    then have "(of_int 1 :: rat) \<le> of_int L" by (simp only: of_int_le_iff)
    then show ?thesis by (simp add: hL)
  qed
  have hv: "h \<le> v"
  proof -
    have "(r - r * u) * i \<le> of_int c * i"
      using err cq i by (intro mult_right_mono) simp_all
    moreover have "(r - r * u) * i = of_int L - of_int L * u"
      by (simp add: algebra_simps ri)
    ultimately show ?thesis using half by (simp add: v_def hL)
  qed
  have hp: "h \<le> p"
  proof -
    have "rnd h \<le> rnd v" using h0 hv by (rule rnd_mono)
    then show ?thesis by (simp add: p_def rh)
  qed
  have lo: "L \<le> \<lceil>p\<rceil>"
  proof -
    have "of_int L - 1 < p" using hp by (simp add: hL)
    then show ?thesis by (simp add: le_ceiling_iff)
  qed
  have hi: "of_int \<lceil>p\<rceil> < of_int L + i + 1"
  proof -
    have "\<lceil>p\<rceil> \<le> m" using pm by (simp add: ceiling_le_iff)
    then have "(of_int \<lceil>p\<rceil> :: rat) \<le> of_int m" by (simp only: of_int_le_iff)
    moreover have "of_int \<lceil>i\<rceil> < i + 1" by linarith
    ultimately show ?thesis using mq by linarith
  qed
  have "\<bar>L\<bar> \<le> 2 ^ 53" using L by simp
  then have a: "int_to_float L = Inr (Fin (of_int L))" by (rule int_to_float_small)
  have b: "round_double r = Fin q"
    using fin r0 by (simp add: round_double_pos q_def r_def)
  have d: "int_to_float c = Inr (Fin (of_int c))"
    unfolding c_def using b by (rule int_to_float_ceiling)
  have e: "round_double v = Fin p"
    using pfin v0 by (simp add: round_double_pos p_def)
  have "derived_timing L (Fin i) = Inr (c, \<lceil>p\<rceil>)"
    using i b e
    by (simp add: derived_timing_def py_truediv_def py_mul_def a d r_def [symmetric]
        c_def [symmetric] v_def [symmetric])
  then show ?thesis using lo hi by blast
qed


lemma timing_large_interval:
  assumes L: "0 < L" "L < 2 ^ 52" and i: "of_int L \<le> i" "is_double i"
  shows "derived_timing L (Fin i) = Inr (1, \<lceil>i\<rceil>)"
proof -
  define r where "r = of_int L / i"
  define q where "q = rnd r"
  define t :: rat where "t = 2 powi (- 1024)"
  have L1: "(1::rat) \<le> of_int L"
  proof -
    have "1 \<le> L" using L by simp
    then have "(of_int 1 :: rat) \<le> of_int L" by (simp only: of_int_le_iff)
    then show ?thesis by simp
  qed
  have i0: "0 < i" using L1 i(1) by linarith
  have ri: "round_double i = Fin i" using i(2) by (simp only: is_double_def)
  have ifin: "i < 2 ^ 1024" using i(2) i0 by (simp add: is_double_iff)
  have r0: "0 < r" using L1 i0 by (simp add: r_def)
  have r1: "r \<le> 1" using i(1) i0 by (simp add: r_def pos_divide_le_eq)
  have t0: "0 < t" by (simp add: t_def)
  have tt: "t * 2 ^ 1024 = 1" by (simp add: t_def)
  have rt: "rnd t = t" using rnd_repr [of 1 "- 1024"] by (simp add: t_def)
  have tr: "t \<le> r"
  proof -
    have "t * i \<le> t * 2 ^ 1024" using ifin t0 by (intro mult_left_mono) simp_all
    then have "t * i \<le> of_int L" using tt L1 by linarith
    then show ?thesis using i0 by (simp add: r_def pos_le_divide_eq)
  qed
  have "rnd t \<le> rnd r" using t0 tr by (rule rnd_mono)
  then have q0: "0 < q" using t0 by (simp add: q_def rt)
  have "rnd r \<le> rnd 1" using r0 r1 by (rule rnd_mono)
  then have q1: "q \<le> 1" by (simp add: q_def)
  have cq: "\<lceil>q\<rceil> = 1" using q0 q1 by (intro ceiling_unique) simp_all
  have b: "round_double r = Fin q" using r0 q1 by (simp add: round_double_pos q_def)
  have "\<bar>L\<bar> \<le> 2 ^ 53" using L by simp
  then have a: "int_to_float L = Inr (Fin (of_int L))" by (rule int_to_float_small)
  have d: "int_to_float 1 = Inr (Fin 1)" using int_to_float_small [of 1] by simp
  show ?thesis
    using i0 b ri
    by (simp add: derived_timing_def py_truediv_def py_mul_def a d r_def [symmetric] cq)
qed

section \<open>The trace of a run\<close>

lemma run_netperf_cases:
  "run_netperf ev k pr h d l = ([], Inl e) \<and> create_subprocess_exec ev k (netperf_cmd pr h d l) = Inl e
   \<or> run_netperf ev k pr h d l = ([CreateSubprocess NETPERF (netperf_cmd pr h d l)], Inr p)
       \<and> create_subprocess_exec ev k (netperf_cmd pr h d l) = Inr p
   \<or> create_subprocess_exec ev k (netperf_cmd pr h d l) \<noteq> Inl e
       \<and> create_subprocess_exec ev k (netperf_cmd pr h d l) \<noteq> Inr p"
  by (cases "create_subprocess_exec ev k (netperf_cmd pr h d l)")
     (auto simp add: run_netperf_def Let_def)

lemma launch_all_trace:
  "\<exists>n\<le>m. fst (launch_all ev pr h d l k m)
            = replicate n (CreateSubprocess NETPERF (netperf_cmd pr h d l))"
proof (induction m arbitrary: k)
  case 0
  then show ?case by simp
next
  case (Suc m)
  obtain n where n: "n \<le> m"
    "fst (launch_all ev pr h d l (Suc k) m) = replicate n (CreateSubprocess NETPERF (netperf_cmd pr h d l))"
    using Suc.IH [of "Suc k"] by blast
  show ?case
  proof (cases "create_subprocess_exec ev k (netperf_cmd pr h d l)")
    case (Inl e)
    then have "fst (launch_all ev pr h d l k (Suc m)) = replicate 0 (CreateSubprocess NETPERF (netperf_cmd pr h d l))"
      by (simp add: run_netperf_def Let_def)
    then show ?thesis by blast
  next
    case (Inr p)
    then have "fst (launch_all ev pr h d l k (Suc m))
        = replicate (Suc n) (CreateSubprocess NETPERF (netperf_cmd pr h d l))"
      using n(2) by (auto simp add: run_netperf_def Let_def split: prod.splits sum.splits)
    moreover have "Suc n \<le> Suc m" using n(1) by simp
    ultimately show ?thesis by blast
  qed
qed

lemma launch_all_success:
  assumes "launch_all ev pr h d l k m = (t, Inr procs)"
  shows "t = replicate m (CreateSubprocess NETPERF (netperf_cmd pr h d l))
         \<and> length procs = m
         \<and> (\<forall>j<m. create_subprocess_exec ev (k + j) (netperf_cmd pr h d l) = Inr (procs ! j))"
  using assms
proof (induction m arbitrary: k t procs)
  case 0
  then show ?case by simp
next
  case (Suc m)
  from Suc.prems obtain p t' ps where
    p: "create_subprocess_exec ev k (netperf_cmd pr h d l) = Inr p"
    and r: "launch_all ev pr h d l (Suc k) m = (t', Inr ps)"
    and t: "t = CreateSubprocess NETPERF (netperf_cmd pr h d l) # t'"
    and ps: "procs = p # ps"
    by (auto simp add: run_netperf_def Let_def split: prod.splits sum.splits)
  have ih: "t' = replicate m (CreateSubprocess NETPERF (netperf_cmd pr h d l))"
    "length ps = m"
    "\<forall>j<m. create_subprocess_exec ev (Suc k + j) (netperf_cmd pr h d l) = Inr (ps ! j)"
    using Suc.IH [OF r] by simp_all
  have "\<forall>j<Suc m. create_subprocess_exec ev (k + j) (netperf_cmd pr h d l) = Inr (procs ! j)"
  proof (intro allI impI)
    fix j assume "j < Suc m"
    then show "create_subprocess_exec ev (k + j) (netperf_cmd pr h d l) = Inr (procs ! j)"
      using p ih(3) ps by (cases j) simp_all
  qed
  then show ?case using ih t ps by simp
qed

lemma launch_all_total:
  assumes "\<forall>j<m. \<exists>p. create_subprocess_exec ev (k + j) (netperf_cmd pr h d l) = Inr p"
  shows "\<exists>t procs. launch_all ev pr h d l k m = (t, Inr procs)"
  using assms
proof (induction m arbitrary: k)
  case 0
  then show ?case by simp
next
  case (Suc m)
  obtain p where p: "create_subprocess_exec ev k (netperf_cmd pr h d l) = Inr p"
    using Suc.prems [rule_format, of 0] by auto
  have "\<forall>j<m. \<exists>p. create_subprocess_exec ev (Suc k + j) (netperf_cmd pr h d l) = Inr p"
    using Suc.prems by (auto dest: spec [of _ "Suc _"])
  then obtain t procs where "launch_all ev pr h d l (Suc k) m = (t, Inr procs)"
    using Suc.IH by blast
  then show ?case using p by (simp add: run_netperf_def Let_def)
qed

lemma gather_map_Inr [simp]: "gather (map Inr vs) = Inr vs"
  by (induction vs) simp_all

lemma gather_Inr_D: "gather rs = Inr vs \<Longrightarrow> rs = map Inr vs"
  by (induction rs arbitrary: vs) (auto split: sum.splits)

lemma gather_Inl:
  assumes "r \<in> set rs" and "r = Inl e"
  shows "\<exists>e'. gather rs = Inl e' \<and> Inl e' \<in> set rs"
  using assms by (induction rs) (auto split: sum.splits)


lemma launch_all_events:
  assumes "launch_all ev pr h d l k m = (t, r)"
  shows "\<exists>n\<le>m. t = replicate n (CreateSubprocess NETPERF (netperf_cmd pr h d l))"
  using launch_all_trace [of m ev pr h d l k] assms by simp

lemma launch_all_filters:
  assumes "launch_all ev pr h d l k m = (t, r)"
  shows "filter is_launch t = t" and "filter is_probe t = []"
    and "filter is_report t = []" and "filter is_speed_line t = []"
  using launch_all_events [OF assms] by auto

lemma print_result_filters:
  assumes "print_result pct a res s = (t, r)"
  shows "filter is_launch t = []" and "filter is_probe t = []" and "filter is_report t = t"
  using assms by (auto simp add: print_result_def Let_def split: sum.splits if_splits)

lemma print_result_speed_lines:
  "filter is_speed_line (fst (print_result pct a res s)) =
     (if truthy s
      then [Print (SpeedLine (if direction a = ''up'' then ''Upload'' else ''Download'') s)]
      else [])"
  by (simp add: print_result_def Let_def split: sum.splits)

lemma int_to_float_error: "int_to_float n = Inl e \<Longrightarrow> e = OverflowError"
  by (auto simp add: int_to_float_def split: pyfloat.splits)

lemma timing_rate:
  assumes "derived_timing L iv = Inr x"
  shows "\<exists>rate. py_truediv 1 iv = Inr rate"
proof -
  have one: "int_to_float 1 = Inr (Fin 1)" using int_to_float_small [of 1] by simp
  have nz: "iv \<noteq> Fin 0"
  proof
    assume "iv = Fin 0"
    then have "\<exists>e. derived_timing L iv = Inl e"
      by (auto simp add: derived_timing_def py_truediv_def split: sum.splits)
    then show False using assms by auto
  qed
  show ?thesis
    using nz by (cases iv) (auto simp add: py_truediv_def one split: pyfloat.splits)
qed

lemma main_timing_error:
  assumes "derived_timing (length_arg a) (interval a) = Inl e"
  shows "main ev a = ([], Inl e)"
  using assms by (simp add: main_def)

lemma main_load_launches:
  assumes "\<not> idle a" and "derived_timing (length_arg a) (interval a) = Inr (count, cd)"
    and "launch_all ev (proto a) (host a)
           (if direction a = ''up'' then ''TCP_STREAM'' else ''TCP_MAERTS'')
           (cd + warmup a + 2) 0 (nat (num a)) = (t1, r)"
  shows "filter is_launch (fst (main ev a)) = t1"
proof -
  obtain rate where rate: "py_truediv 1 (interval a) = Inr rate"
    using timing_rate [OF assms(2)] by blast
  note f = launch_all_filters [OF assms(3)]
  show ?thesis
    using assms f
    by (auto simp add: main_def rate Let_def dest: print_result_filters(1)
        split: sum.splits prod.splits)
qed

lemma main_idle_no_launch:
  assumes "idle a"
  shows "filter is_launch (fst (main ev a)) = []"
  using assms
  by (auto simp add: main_def Let_def dest: print_result_filters split: sum.splits prod.splits)

lemma print_result_label:
  assumes "Print (SpeedLine d s) \<in> set (fst (print_result pct a res sp))"
  shows "d = (if direction a = ''up'' then ''Upload'' else ''Download'')"
  using assms by (auto simp add: print_result_def Let_def split: sum.splits if_splits)

lemma print_result_snd_direction:
  "snd (print_result pct (a\<lparr>direction := d\<rparr>) res s) = snd (print_result pct a res s)"
  by (simp add: print_result_def Let_def split: sum.splits)

lemma launch_all_no_speed_line:
  assumes "launch_all ev pr h d l k m = (t, r)"
  shows "Print x \<notin> set t"
  using launch_all_events [OF assms] by auto

lemma main_speed_label:
  assumes "Print (SpeedLine d s) \<in> set (fst (main ev a))"
  shows "d = (if direction a = ''up'' then ''Upload'' else ''Download'')"
proof -
  have pl: "d = (if direction a = ''up'' then ''Upload'' else ''Download'')"
    if "print_result pct a res sp = (t, r)" "Print (SpeedLine d s) \<in> set t" for pct res sp t r
    using print_result_label [of d s pct a res sp] that by simp
  show ?thesis
    using assms
    by (auto simp add: main_def Let_def dest: pl launch_all_no_speed_line
        split: sum.splits prod.splits if_splits)
qed

lemma main_snd_direction:
  assumes "direction a \<noteq> ''up''" and "d \<noteq> ''up''"
  shows "snd (main ev (a\<lparr>direction := d\<rparr>)) = snd (main ev a)"
proof -
  have ps: "snd (print_result pct (a\<lparr>direction := d\<rparr>) res s) = r"
    if "print_result pct a res s = (t, r)" for pct res s t r
    using that by (simp add: print_result_snd_direction)
  show ?thesis
    using assms
    by (auto simp add: main_def Let_def dest: ps split: sum.splits prod.splits)
qed

lemma py_float_error: "py_float s = Inl e \<Longrightarrow> e = ValueError"
  by (auto simp add: py_float_def Let_def split: option.splits prod.splits)

lemma get_netperf_returncode [simp]:
  "get_netperf (p\<lparr>returncode := x\<rparr>) = get_netperf p"
  by (simp add: get_netperf_def)

lemma gather_error:
  assumes "p \<in> set procs" and "get_netperf p = Inl e"
  shows "gather (map get_netperf procs) = Inl ValueError"
proof -
  have "get_netperf p \<in> set (map get_netperf procs)" using assms(1) by simp
  then obtain e' where e': "gather (map get_netperf procs) = Inl e'"
    "Inl e' \<in> set (map get_netperf procs)"
    using gather_Inl assms(2) by blast
  then obtain p' where "get_netperf p' = Inl e'" by auto
  then have "e' = ValueError" unfolding get_netperf_def by (rule py_float_error)
  then show ?thesis using e'(1) by simp
qed

text \<open>The same environment, with every exit status replaced.\<close>

lemma launch_all_returncode:
  "launch_all (ev\<lparr>create_subprocess_exec :=
       \<lambda>k c. map_sum id (returncode_update f) (create_subprocess_exec ev k c)\<rparr>) pr h d l k m
   = (fst (launch_all ev pr h d l k m),
      map_sum id (map (returncode_update f)) (snd (launch_all ev pr h d l k m)))"
  by (induction m arbitrary: k)
     (auto simp add: run_netperf_def Let_def split: sum.splits prod.splits)

lemma get_netperf_comp [simp]: "get_netperf \<circ> returncode_update f = get_netperf"
  by (rule ext) (simp add: get_netperf_def)

lemma main_returncode:
  "main (ev\<lparr>create_subprocess_exec :=
       \<lambda>k c. map_sum id (returncode_update f) (create_subprocess_exec ev k c)\<rparr>) a
   = main ev a"
proof (cases "derived_timing (length_arg a) (interval a)")
  case (Inl e)
  then show ?thesis by (simp add: main_def)
next
  case (Inr x)
  obtain count cd where x: "x = (count, cd)" by (cases x)
  note t = Inr [unfolded x]
  show ?thesis
  proof (cases "idle a")
    case True
    then show ?thesis using t by (simp add: main_def Let_def cong: sum.case_cong)
  next
    case False
    obtain rate where rate: "py_truediv 1 (interval a) = Inr rate"
      using timing_rate [OF t] by blast
    obtain t1 r where l: "launch_all ev (proto a) (host a)
           (if direction a = ''up'' then ''TCP_STREAM'' else ''TCP_MAERTS'')
           (cd + warmup a + 2) 0 (nat (num a)) = (t1, r)"
      by (cases "launch_all ev (proto a) (host a)
           (if direction a = ''up'' then ''TCP_STREAM'' else ''TCP_MAERTS'')
           (cd + warmup a + 2) 0 (nat (num a))")
    show ?thesis
    proof (cases r)
      case (Inl e)
      then show ?thesis
        using False t l
        by (simp add: main_def Let_def rate launch_all_returncode cong: sum.case_cong)
    next
      case (Inr procs)
      then show ?thesis
        using False t l
        by (simp add: main_def Let_def rate launch_all_returncode cong: sum.case_cong)
    qed
  qed
qed

lemma foldl_fadd_exact:
  assumes "exact_sums acc xs"
  shows "foldl fadd (Fin acc) (map Fin xs) = Fin (acc + sum_list xs)"
  using assms
  by (induction xs arbitrary: acc) (simp_all add: is_double_def add.assoc)

lemma py_sum_exact:
  assumes "exact_sums 0 xs" and "xs \<noteq> []"
  shows "py_sum (map Fin xs) = PyFloat (Fin (sum_list xs))"
proof -
  obtain y ys where xs: "xs = y # ys" using assms(2) by (cases xs) auto
  have "is_double y" "exact_sums y ys" using assms(1) by (simp_all add: xs)
  then show ?thesis
    using foldl_fadd_exact [of y ys] by (simp add: xs is_double_def)
qed

lemma main_load_report:
  assumes "\<not> idle a"
    and "derived_timing (length_arg a) (interval a) = Inr (count, cd)"
    and "launch_all ev (proto a) (host a)
           (if direction a = ''up'' then ''TCP_STREAM'' else ''TCP_MAERTS'')
           (cd + warmup a + 2) 0 (nat (num a)) = (t1, Inr procs)"
    and "gather (map get_netperf procs) = Inr speeds"
    and "async_ping ev (ping a) count (interval a) = Inr res"
    and "py_truediv 1 (interval a) = Inr rate"
  shows "main ev a =
      ([Print (NetperfsLine (num a) (if proto a = 4 then ''ipv4'' else ''ipv6'') (direction a)
                 (host a) (ping a) rate cd)] @ t1
         @ (if 0 < warmup a then [Print (WarmingUpLine (warmup a)), Sleep (warmup a)] else [])
         @ [Print RunningTestLine, AsyncPing (ping a) count (interval a)]
         @ fst (print_result (percentile ev) a res (py_sum speeds)),
       snd (print_result (percentile ev) a res (py_sum speeds)))"
  using assms by (simp add: main_def Let_def split: prod.splits)

lemma launch_all_env:
  assumes "length procs = m"
    and "\<forall>j<m. create_subprocess_exec ev (k + j) (netperf_cmd pr h d l) = Inr (procs ! j)"
  shows "launch_all ev pr h d l k m
           = (replicate m (CreateSubprocess NETPERF (netperf_cmd pr h d l)), Inr procs)"
proof -
  have "\<forall>j<m. \<exists>p. create_subprocess_exec ev (k + j) (netperf_cmd pr h d l) = Inr p"
    using assms(2) by blast
  then obtain t ps where l: "launch_all ev pr h d l k m = (t, Inr ps)"
    using launch_all_total by blast
  note s = launch_all_success [OF l]
  have "ps = procs"
  proof (rule nth_equalityI)
    show "length ps = length procs" using s assms(1) by simp
  next
    fix j assume "j < length ps"
    then have j: "j < m" using s by simp
    have "Inr (ps ! j) = (Inr (procs ! j) :: error + process)"
      using s assms(2) j by (metis (no_types, lifting))
    then show "ps ! j = procs ! j" by simp
  qed
  then show ?thesis using l s by simp
qed

lemma print_result_ok:
  assumes "pct (sort (rtts res)) 10 = Inr p10"
    and "pct (sort (rtts res)) 50 = Inr p50"
    and "pct (sort (rtts res)) 90 = Inr p90"
  shows "print_result pct a res s =
     ((if truthy s
       then [Print (SpeedLine (if direction a = ''up'' then ''Upload'' else ''Download'') s)]
       else [])
      @ [Print (LatencyLine (packets_sent res) (fmul (packet_loss res) (Fin 100))),
         Print (StatLine ''Min:'' (min_rtt res)),
         Print (StatLine ''10pct:'' p10),
         Print (StatLine ''Median:'' p50),
         Print (StatLine ''Avg:'' (avg_rtt res)),
         Print (StatLine ''90pct:'' p90),
         Print (StatLine ''Max:'' (max_rtt res)),
         Print (StatLine ''Jitter:'' (jitter res))],
      Inr ())"
  using assms by (simp add: print_result_def Let_def)

lemma main_idle_run:
  assumes "idle a"
    and "derived_timing (length_arg a) (interval a) = Inr (count, cd)"
    and "async_ping ev (ping a) count (interval a) = Inr res"
    and "percentile ev (sort (rtts res)) 10 = Inr p10"
    and "percentile ev (sort (rtts res)) 50 = Inr p50"
    and "percentile ev (sort (rtts res)) 90 = Inr p90"
  shows "main ev a =
     ([Print (PingingLine (ping a) count (interval a) cd),
       AsyncPing (ping a) count (interval a),
       Print (LatencyLine (packets_sent res) (fmul (packet_loss res) (Fin 100))),
       Print (StatLine ''Min:'' (min_rtt res)),
       Print (StatLine ''10pct:'' p10),
       Print (StatLine ''Median:'' p50),
       Print (StatLine ''Avg:'' (avg_rtt res)),
       Print (StatLine ''90pct:'' p90),
       Print (StatLine ''Max:'' (max_rtt res)),
       Print (StatLine ''Jitter:'' (jitter res))],
      Inr ())"
  using assms(1,2,3)
    print_result_ok [where pct = "percentile ev" and res = res and a = a and s = PyNone,
      OF assms(4,5,6)]
  by (simp add: main_def Let_def)

lemma main_idle_probe:
  assumes "idle a" and "derived_timing (length_arg a) (interval a) = Inr (count, cd)"
  shows "filter is_probe (fst (main ev a)) = [AsyncPing (ping a) count (interval a)]"
  using assms
  by (auto simp add: main_def Let_def dest: print_result_filters split: sum.splits prod.splits)

lemma main_idle_no_speed_line:
  assumes "idle a"
  shows "filter is_speed_line (fst (main ev a)) = []"
proof -
  have sl: "filter is_speed_line t = []" if "print_result pct a res PyNone = (t, r)" for pct res t r
    using print_result_speed_lines [of pct a res PyNone] that by simp
  show ?thesis
    using assms
    by (auto simp add: main_def Let_def dest: sl split: sum.splits prod.splits)
qed

lemma main_idle_ping_error:
  assumes "idle a" and "derived_timing (length_arg a) (interval a) = Inr (count, cd)"
    and "async_ping ev (ping a) count (interval a) = Inl e"
  shows "main ev a =
     ([Print (PingingLine (ping a) count (interval a) cd), AsyncPing (ping a) count (interval a)],
      Inl e)"
  using assms by (simp add: main_def Let_def)

lemma main_load_run:
  assumes "\<not> idle a"
    and "derived_timing (length_arg a) (interval a) = Inr (count, cd)"
    and "length procs = nat (num a)"
    and "\<forall>j<nat (num a). create_subprocess_exec ev j
            (netperf_cmd (proto a) (host a)
               (if direction a = ''up'' then ''TCP_STREAM'' else ''TCP_MAERTS'')
               (cd + warmup a + 2)) = Inr (procs ! j)"
    and "map get_netperf procs = map Inr speeds"
    and "async_ping ev (ping a) count (interval a) = Inr res"
    and "percentile ev (sort (rtts res)) 10 = Inr p10"
    and "percentile ev (sort (rtts res)) 50 = Inr p50"
    and "percentile ev (sort (rtts res)) 90 = Inr p90"
  shows "\<exists>rate. py_truediv 1 (interval a) = Inr rate \<and> main ev a =
     ([Print (NetperfsLine (num a) (if proto a = 4 then ''ipv4'' else ''ipv6'') (direction a)
                (host a) (ping a) rate cd)]
      @ replicate (nat (num a)) (CreateSubprocess NETPERF
          (netperf_cmd (proto a) (host a)
             (if direction a = ''up'' then ''TCP_STREAM'' else ''TCP_MAERTS'')
             (cd + warmup a + 2)))
      @ (if 0 < warmup a then [Print (WarmingUpLine (warmup a)), Sleep (warmup a)] else [])
      @ [Print RunningTestLine, AsyncPing (ping a) count (interval a)]
      @ (if truthy (py_sum speeds)
         then [Print (SpeedLine (if direction a = ''up'' then ''Upload'' else ''Download'')
                        (py_sum speeds))]
         else [])
      @ [Print (LatencyLine (packets_sent res) (fmul (packet_loss res) (Fin 100))),
         Print (StatLine ''Min:'' (min_rtt res)),
         Print (StatLine ''10pct:'' p10),
         Print (StatLine ''Median:'' p50),
         Print (StatLine ''Avg:'' (avg_rtt res)),
         Print (StatLine ''90pct:'' p90),
         Print (StatLine ''Max:'' (max_rtt res)),
         Print (StatLine ''Jitter:'' (jitter res))],
      Inr ())"
proof -
  obtain rate where rate: "py_truediv 1 (interval a) = Inr rate"
    using timing_rate [OF assms(2)] by blast
  have "\<forall>j<nat (num a). create_subprocess_exec ev (0 + j)
            (netperf_cmd (proto a) (host a)
               (if direction a = ''up'' then ''TCP_STREAM'' else ''TCP_MAERTS'')
               (cd + warmup a + 2)) = Inr (procs ! j)"
    using assms(4) by simp
  then have l: "launch_all ev (proto a) (host a)
           (if direction a = ''up'' then ''TCP_STREAM'' else ''TCP_MAERTS'')
           (cd + warmup a + 2) 0 (nat (num a))
      = (replicate (nat (num a)) (CreateSubprocess NETPERF
          (netperf_cmd (proto a) (host a)
             (if direction a = ''up'' then ''TCP_STREAM'' else ''TCP_MAERTS'')
             (cd + warmup a + 2))), Inr procs)"
    using assms(3) by (intro launch_all_env)
  have g: "gather (map get_netperf procs) = Inr speeds"
    by (simp add: assms(5))
  have "main ev a =
      ([Print (NetperfsLine (num a) (if proto a = 4 then ''ipv4'' else ''ipv6'') (direction a)
                 (host a) (ping a) rate cd)]
       @ replicate (nat (num a)) (CreateSubprocess NETPERF
          (netperf_cmd (proto a) (host a)
             (if direction a = ''up'' then ''TCP_STREAM'' else ''TCP_MAERTS'')
             (cd + warmup a + 2)))
       @ (if 0 < warmup a then [Print (WarmingUpLine (warmup a)), Sleep (warmup a)] else [])
       @ [Print RunningTestLine, AsyncPing (ping a) count (interval a)]
       @ fst (print_result (percentile ev) a res (py_sum speeds)),
       snd (print_result (percentile ev) a res (py_sum speeds)))"
    using assms(1,2) l g assms(6) rate by (rule main_load_report)
  then show ?thesis
    using rate
      print_result_ok [where pct = "percentile ev" and res = res and a = a
        and s = "py_sum speeds", OF assms(7,8,9)]
    by simp
qed

section \<open>Evaluations at sample inputs\<close>

lemma rd_tenth: "round_double (1 / 10) = Fin (3602879701896397 / 36028797018963968)"
  using round_double_cert [of "- 4" "1 / 10" "- 56" 7205759403792794] by simp

lemma rd_30_div_tenth: "round_double (30 / (3602879701896397 / 36028797018963968)) = Fin 300"
  using round_double_cert [of "8" "30 / (3602879701896397 / 36028797018963968)" "- 44" 5277655813324800] by simp

lemma rd_300_mul_tenth: "round_double (300 * (3602879701896397 / 36028797018963968)) = Fin 30"
  using round_double_cert [of "4" "300 * (3602879701896397 / 36028797018963968)" "- 48" 8444249301319680] by simp

lemma rd_three_tenths: "round_double (3 / 10) = Fin (5404319552844595 / 18014398509481984)"
  using round_double_cert [of "- 2" "3 / 10" "- 54" 5404319552844595] by simp

lemma rd_10_div_three_tenths: "round_double (10 / (5404319552844595 / 18014398509481984)) = Fin (4691249611844267 / 140737488355328)"
  using round_double_cert [of "5" "10 / (5404319552844595 / 18014398509481984)" "- 47" 4691249611844267] by simp

lemma rd_34_mul_three_tenths: "round_double (34 * (5404319552844595 / 18014398509481984)) = Fin (2871044762448691 / 281474976710656)"
  using round_double_cert [of "3" "34 * (5404319552844595 / 18014398509481984)" "- 49" 5742089524897382] by simp

lemma rd_9_8: "round_double (98 / 10) = Fin (2758454771764429 / 281474976710656)"
  using round_double_cert [of "3" "98 / 10" "- 49" 5516909543528858] by simp

lemma rd_sum_32_3: "round_double (45 / 2 + (2758454771764429 / 281474976710656)) = Fin (2272910436938547 / 70368744177664)"
  using round_double_tie [of "5" "45 / 2 + (2758454771764429 / 281474976710656)" "- 47" 4545820873877094] by simp

lemma rd_32_3: "round_double (323 / 10) = Fin (2272910436938547 / 70368744177664)"
  using round_double_cert [of "5" "323 / 10" "- 47" 4545820873877094] by simp

lemma rd_zero: "round_double 0 = Fin 0"
  using round_double_of_int [of 0] by simp

lemma rd_12_5: "round_double (25 / 2) = Fin (25 / 2)"
  using round_double_repr [of 25 "- 1"] by simp

lemma rd_22_5: "round_double (45 / 2) = Fin (45 / 2)"
  using round_double_repr [of 45 "- 1"] by simp

lemma ceiling_33_3: "\<lceil>4691249611844267 / 140737488355328 :: rat\<rceil> = 34"
  by (rule ceiling_unique) simp_all

lemma ceiling_10_2: "\<lceil>2871044762448691 / 281474976710656 :: rat\<rceil> = 11"
  by (rule ceiling_unique) simp_all

lemma timing_default: "derived_timing 30 (round_double (1 / 10)) = Inr (300, 30)"
  using rd_tenth rd_30_div_tenth rd_300_mul_tenth
    round_double_of_int [of 30] round_double_of_int [of 300]
  by (simp add: derived_timing_def py_truediv_def int_to_float_def py_mul_def)

lemma timing_10_three_tenths: "derived_timing 10 (round_double (3 / 10)) = Inr (34, 11)"
  using ceiling_33_3 ceiling_10_2 rd_three_tenths rd_10_div_three_tenths rd_34_mul_three_tenths
    round_double_of_int [of 10] round_double_of_int [of 34]
  by (simp add: derived_timing_def py_truediv_def int_to_float_def py_mul_def)

lemma sum_example:
  "py_sum [round_double 10, round_double (25 / 2), round_double (98 / 10)]
     = PyFloat (round_double (323 / 10))"
  using round_double_of_int [of 10] rd_12_5 rd_22_5 rd_9_8 rd_sum_32_3 rd_32_3
  by simp

lemma timing_5_1: "derived_timing 5 (Fin 1) = Inr (5, 5)"
  using round_double_of_int [of 5]
  by (simp add: derived_timing_def py_truediv_def int_to_float_def py_mul_def)

lemma timing_5_minus_1: "derived_timing 5 (Fin (- 1)) = Inr (- 5, 5)"
  using round_double_of_int [of 5] round_double_of_int [of "- 5"]
  by (simp add: derived_timing_def py_truediv_def int_to_float_def py_mul_def)

lemma timing_huge: "derived_timing (2 ^ 53 + 1) (Fin 1) = Inr (2 ^ 53, 2 ^ 53)"
  using round_double_tie [of 53 "2 ^ 53 + 1" 1 "2 ^ 52"] round_double_of_int [of "2 ^ 53"]
  by (simp add: derived_timing_def py_truediv_def int_to_float_def py_mul_def)

lemma rate_1: "py_truediv 1 (Fin 1) = Inr (Fin 1)"
  using round_double_of_int [of 1] by (simp add: py_truediv_def int_to_float_def)

lemma rate_minus_1: "py_truediv 1 (Fin (- 1)) = Inr (Fin (- 1))"
  using round_double_of_int [of 1] round_double_of_int [of "- 1"]
  by (simp add: py_truediv_def int_to_float_def)

lemmas py_float_defs = py_float_def strip_def is_space_def take_sign_def parse_abs_def
  to_lower_def parse_number_def parse_exponent_def is_digit_def digits_val_def Let_def

lemma parse_12_5: "py_float ''12.5'' = Inr (Fin (25 / 2))"
  using rd_12_5 by (simp add: py_float_defs)

lemma parse_10_0: "py_float ''10.0'' = Inr (round_double 10)"
  by (simp add: py_float_defs)

lemma parse_9_8: "py_float ''9.8'' = Inr (round_double (98 / 10))"
  by (simp add: py_float_defs)

lemma parse_abc: "py_float ''abc'' = Inl ValueError"
  by (simp add: py_float_defs)

lemma parse_empty: "py_float [] = Inl ValueError"
  by (simp add: py_float_defs)

lemma percentile_one: "percentile_linear [42] p = Inr (Fin 42)"
  using round_double_of_int [of 42] by (simp add: percentile_linear_def)

lemma print_one_sample:
  "print_result percentile_linear a one_sample s =
     ((if truthy s
       then [Print (SpeedLine (if direction a = ''up'' then ''Upload'' else ''Download'') s)]
       else [])
      @ [Print (LatencyLine 1 (Fin 0)), Print (StatLine ''Min:'' (Fin 42)),
         Print (StatLine ''10pct:'' (Fin 42)), Print (StatLine ''Median:'' (Fin 42)),
         Print (StatLine ''Avg:'' (Fin 42)), Print (StatLine ''90pct:'' (Fin 42)),
         Print (StatLine ''Max:'' (Fin 42)), Print (StatLine ''Jitter:'' (Fin 0))],
      Inr ())"
  using rd_zero by (simp add: print_result_def one_sample_def percentile_one)

lemma double_three_tenths: "is_double (5404319552844595 / 18014398509481984)"
  using round_double_repr [of 5404319552844595 "- 54"] by (simp add: is_double_def)

lemma launch_sample_1:
  "launch_all (sample_env [s] rc) pr h d l 0 (nat 1)
     = ([CreateSubprocess NETPERF (netperf_cmd pr h d l)], Inr [\<lparr>stdout = s, returncode = rc\<rparr>])"
  by (simp add: sample_env_def run_netperf_def)

lemma launch_sample_3:
  "launch_all (sample_env [s1, s2, s3] rc) pr h d l 0 (nat 3)
     = (replicate 3 (CreateSubprocess NETPERF (netperf_cmd pr h d l)),
        Inr [\<lparr>stdout = s1, returncode = rc\<rparr>, \<lparr>stdout = s2, returncode = rc\<rparr>,
             \<lparr>stdout = s3, returncode = rc\<rparr>])"
  by (simp add: sample_env_def run_netperf_def numeral_3_eq_3)

lemma cmd_sample:
  "netperf_cmd 4 ''netperf-west.bufferbloat.net'' ''TCP_STREAM'' 7
     = ''-4 -H netperf-west.bufferbloat.net -t TCP_STREAM -l 7 -v 0 -P 0''"
  by code_simp

lemma get_12_5: "get_netperf \<lparr>stdout = ''12.5'', returncode = rc\<rparr> = Inr (Fin (25 / 2))"
  using rd_12_5 by (simp add: get_netperf_def py_float_defs)

lemma get_abc: "get_netperf \<lparr>stdout = ''abc'', returncode = rc\<rparr> = Inl ValueError"
  by (simp add: get_netperf_def py_float_defs)

lemma main_sample_run:
  "main (sample_env [''12.5''] rc) (sample_args 1) =
     ([Print (NetperfsLine 1 ''ipv4'' ''up'' ''netperf-west.bufferbloat.net'' ''1.1.1.1'' (Fin 1) 5),
       CreateSubprocess NETPERF (netperf_cmd 4 ''netperf-west.bufferbloat.net'' ''TCP_STREAM'' 7),
       Print RunningTestLine,
       AsyncPing ''1.1.1.1'' 5 (Fin 1),
       Print (SpeedLine ''Upload'' (PyFloat (Fin (25 / 2)))),
       Print (LatencyLine 1 (Fin 0)), Print (StatLine ''Min:'' (Fin 42)),
       Print (StatLine ''10pct:'' (Fin 42)), Print (StatLine ''Median:'' (Fin 42)),
       Print (StatLine ''Avg:'' (Fin 42)), Print (StatLine ''90pct:'' (Fin 42)),
       Print (StatLine ''Max:'' (Fin 42)), Print (StatLine ''Jitter:'' (Fin 0))],
      Inr ())"
proof -
  have l: "launch_all (sample_env [''12.5''] rc) 4 ''netperf-west.bufferbloat.net''
      ''TCP_STREAM'' 7 0 (nat 1)
     = ([CreateSubprocess NETPERF (netperf_cmd 4 ''netperf-west.bufferbloat.net'' ''TCP_STREAM'' 7)],
        Inr [\<lparr>stdout = ''12.5'', returncode = rc\<rparr>])"
    by (rule launch_sample_1)
  have e: "async_ping (sample_env [''12.5''] rc) = (\<lambda>h c i. Inr one_sample)"
    "percentile (sample_env [''12.5''] rc) = percentile_linear"
    by (simp_all add: sample_env_def)
  show ?thesis
    using l rd_12_5
    by (simp add: main_def sample_args_def timing_5_1 rate_1 e get_12_5 print_one_sample)
qed

lemma main_negative_interval:
  "main (sample_env [''12.5''] 0) ((sample_args 1)\<lparr>interval := Fin (- 1)\<rparr>) =
     ([Print (NetperfsLine 1 ''ipv4'' ''up'' ''netperf-west.bufferbloat.net'' ''1.1.1.1''
                (Fin (- 1)) 5),
       CreateSubprocess NETPERF (netperf_cmd 4 ''netperf-west.bufferbloat.net'' ''TCP_STREAM'' 7),
       Print RunningTestLine,
       AsyncPing ''1.1.1.1'' (- 5) (Fin (- 1)),
       Print (SpeedLine ''Upload'' (PyFloat (Fin (25 / 2)))),
       Print (LatencyLine 1 (Fin 0)), Print (StatLine ''Min:'' (Fin 42)),
       Print (StatLine ''10pct:'' (Fin 42)), Print (StatLine ''Median:'' (Fin 42)),
       Print (StatLine ''Avg:'' (Fin 42)), Print (StatLine ''90pct:'' (Fin 42)),
       Print (StatLine ''Max:'' (Fin 42)), Print (StatLine ''Jitter:'' (Fin 0))],
      Inr ())"
proof -
  have l: "launch_all (sample_env [''12.5''] 0) 4 ''netperf-west.bufferbloat.net''
      ''TCP_STREAM'' 7 0 (nat 1)
     = ([CreateSubprocess NETPERF (netperf_cmd 4 ''netperf-west.bufferbloat.net'' ''TCP_STREAM'' 7)],
        Inr [\<lparr>stdout = ''12.5'', returncode = 0\<rparr>])"
    by (rule launch_sample_1)
  have e: "async_ping (sample_env [''12.5''] 0) = (\<lambda>h c i. Inr one_sample)"
    "percentile (sample_env [''12.5''] 0) = percentile_linear"
    by (simp_all add: sample_env_def)
  show ?thesis
    using l rd_12_5
    by (simp add: main_def sample_args_def timing_5_minus_1 rate_minus_1 e get_12_5
        print_one_sample)
qed

lemma main_no_sessions:
  "main (sample_env [] 0) (sample_args 0) =
     ([Print (NetperfsLine 0 ''ipv4'' ''up'' ''netperf-west.bufferbloat.net'' ''1.1.1.1'' (Fin 1) 5),
       Print RunningTestLine,
       AsyncPing ''1.1.1.1'' 5 (Fin 1),
       Print (LatencyLine 1 (Fin 0)), Print (StatLine ''Min:'' (Fin 42)),
       Print (StatLine ''10pct:'' (Fin 42)), Print (StatLine ''Median:'' (Fin 42)),
       Print (StatLine ''Avg:'' (Fin 42)), Print (StatLine ''90pct:'' (Fin 42)),
       Print (StatLine ''Max:'' (Fin 42)), Print (StatLine ''Jitter:'' (Fin 0))],
      Inr ())"
proof -
  have e: "async_ping (sample_env [] 0) = (\<lambda>h c i. Inr one_sample)"
    "percentile (sample_env [] 0) = percentile_linear"
    by (simp_all add: sample_env_def)
  show ?thesis
    by (simp add: main_def sample_args_def timing_5_1 rate_1 e print_one_sample)
qed

lemma print_no_sample:
  "print_result percentile_linear a no_sample PyNone =
     ([Print (LatencyLine 5 (Fin 100)), Print (StatLine ''Min:'' (Fin 0))],
      Inl (ExternalError ''InsufficientDataError''))"
  using round_double_of_int [of 100]
  by (simp add: print_result_def no_sample_def percentile_linear_def)

lemma cmd_sample_down:
  "netperf_cmd 4 ''netperf-west.bufferbloat.net'' ''TCP_MAERTS'' 7
     = ''-4 -H netperf-west.bufferbloat.net -t TCP_MAERTS -l 7 -v 0 -P 0''"
  by code_simp

section \<open>The claims\<close>

subsection \<open>Derived timing\<close>

text \<open>
  Claim C1, as amended. For every whole number of seconds \<open>L\<close> with \<open>0 < L < 2 ^ 52\<close> and
  every double \<open>i > 0\<close>, lines 46 and 47 either raise \<open>OverflowError\<close>, exactly when the
  quotient \<open>L / i\<close> rounds to infinity, or compute a duration \<open>cd\<close> with \<open>L \<le> cd\<close> and
  \<open>cd < L + i + 1\<close>: not below the requested length, and less than one interval plus one
  second above it. The outer \<open>ceil\<close> rounds to whole seconds, so the duration need not be
  within one interval of the request (\<open>timing_10_three_tenths\<close>), and a length that is
  not a double can come out smaller (\<open>timing_huge\<close>).
\<close>

theorem C1_timing_bounds:
  assumes "0 < L" and "L < 2 ^ 52" and "0 < i" and "is_double i"
  shows "(\<exists>count cd. derived_timing L (Fin i) = Inr (count, cd)
            \<and> L \<le> cd \<and> of_int cd < of_int L + i + 1)
         \<or> (derived_timing L (Fin i) = Inl OverflowError \<and> 2 ^ 1024 \<le> rnd (of_int L / i))"
proof (cases "of_int L \<le> i")
  case True
  have "derived_timing L (Fin i) = Inr (1, \<lceil>i\<rceil>)"
    using assms(1,2) True assms(4) by (rule timing_large_interval)
  moreover have "L \<le> \<lceil>i\<rceil>" using True by (simp add: le_ceiling_iff) 
  moreover have "(of_int \<lceil>i\<rceil> :: rat) < of_int L + i + 1"
  proof -
    have "of_int \<lceil>i\<rceil> < i + 1" by linarith
    moreover have "(0::rat) < of_int L" using assms(1) by simp
    ultimately show ?thesis by linarith
  qed
  ultimately show ?thesis by blast
next
  case False
  then have il: "i < of_int L" by simp
  show ?thesis
  proof (cases "rnd (of_int L / i) < 2 ^ 1024")
    case True
    then show ?thesis using timing_small_interval [OF assms(1,2,3) il] by blast
  next
    case False
    then have "2 ^ 1024 \<le> rnd (of_int L / i)" by simp
    then show ?thesis using timing_overflow [OF assms(1,2,3)] by blast
  qed
qed
text \<open>
  As the claim was stated it fails for a length of 10 s and an interval of 0.3 s: 34 pings,
  a duration of 11 s, one second above the request and so more than one interval away.
\<close>

theorem C1_counterexample:
  "(0::int) < 10
   \<and> (0::rat) < 5404319552844595 / 18014398509481984
   \<and> round_double (3 / 10) = Fin (5404319552844595 / 18014398509481984)
   \<and> derived_timing 10 (Fin (5404319552844595 / 18014398509481984)) = Inr (34, 11)
   \<and> \<not> \<bar>of_int 11 - of_int 10\<bar> \<le> (5404319552844595 / 18014398509481984 :: rat)"
  using timing_10_three_tenths rd_three_tenths by simp

theorem C1_timing_bounds_witness:
  "(0::int) < 10 \<and> (10::int) < 2 ^ 52
   \<and> (0::rat) < 5404319552844595 / 18014398509481984
   \<and> is_double (5404319552844595 / 18014398509481984)
   \<and> ((\<exists>count cd. derived_timing 10 (Fin (5404319552844595 / 18014398509481984))
                       = Inr (count, cd)
            \<and> 10 \<le> cd
            \<and> of_int cd < of_int 10 + (5404319552844595 / 18014398509481984 :: rat) + 1)
        \<or> (derived_timing 10 (Fin (5404319552844595 / 18014398509481984)) = Inl OverflowError
            \<and> 2 ^ 1024 \<le> rnd (of_int 10 / (5404319552844595 / 18014398509481984))))"
proof -
  have h: "(0::int) < 10" "(10::int) < 2 ^ 52"
    "(0::rat) < 5404319552844595 / 18014398509481984"
    by simp_all
  show ?thesis
    using h double_three_tenths C1_timing_bounds [OF h double_three_tenths] by blast
qed

text \<open>
  Claim C2. With the default interval, the double nearest to 0.1 (what \<open>float\<close> makes of
  the text \<open>0.1\<close>), and the default length 30, lines 46 and 47 compute 300 pings and a
  duration of 30 s.
\<close>

theorem C2_default_timing:
  "py_float ''0.1'' = Inr (round_double (1 / 10))
   \<and> round_double (1 / 10) = Fin (3602879701896397 / 36028797018963968)
   \<and> derived_timing 30 (round_double (1 / 10)) = Inr (300, 30)"
  using timing_default rd_tenth by (simp add: py_float_defs)

subsection \<open>Parameters that are not checked\<close>

text \<open>
  Claim C3, as amended. The program validates nothing itself. An interval of zero stops the
  run at the division of line 46, before anything is printed, launched or pinged: with
  \<open>ZeroDivisionError\<close>, or with \<open>OverflowError\<close> when the length is too large to
  convert to a float.
\<close>

theorem C3_zero_interval_fails_first:
  assumes "interval a = Fin 0"
  shows "main ev a =
           ([], Inl (case int_to_float (length_arg a) of Inl e \<Rightarrow> e | Inr x \<Rightarrow> ZeroDivisionError))"
  using assms
  by (simp add: main_def derived_timing_def py_truediv_def split: sum.splits)

text \<open>
  A negative interval is not rejected: with one session and an interval of -1 the netperf
  is launched and the run ends with a report. No sessions at all are not rejected either:
  the run pings and prints a report without a throughput line.
\<close>

theorem C3_counterexample:
  "main (sample_env [''12.5''] 0) ((sample_args 1)\<lparr>interval := Fin (- 1)\<rparr>) =
     ([Print (NetperfsLine 1 ''ipv4'' ''up'' ''netperf-west.bufferbloat.net'' ''1.1.1.1''
                (Fin (- 1)) 5),
       CreateSubprocess ''netperf''
         ''-4 -H netperf-west.bufferbloat.net -t TCP_STREAM -l 7 -v 0 -P 0'',
       Print RunningTestLine,
       AsyncPing ''1.1.1.1'' (- 5) (Fin (- 1)),
       Print (SpeedLine ''Upload'' (PyFloat (Fin (25 / 2)))),
       Print (LatencyLine 1 (Fin 0)), Print (StatLine ''Min:'' (Fin 42)),
       Print (StatLine ''10pct:'' (Fin 42)), Print (StatLine ''Median:'' (Fin 42)),
       Print (StatLine ''Avg:'' (Fin 42)), Print (StatLine ''90pct:'' (Fin 42)),
       Print (StatLine ''Max:'' (Fin 42)), Print (StatLine ''Jitter:'' (Fin 0))],
      Inr ())
   \<and> main (sample_env [] 0) (sample_args 0) =
     ([Print (NetperfsLine 0 ''ipv4'' ''up'' ''netperf-west.bufferbloat.net'' ''1.1.1.1'' (Fin 1) 5),
       Print RunningTestLine,
       AsyncPing ''1.1.1.1'' 5 (Fin 1),
       Print (LatencyLine 1 (Fin 0)), Print (StatLine ''Min:'' (Fin 42)),
       Print (StatLine ''10pct:'' (Fin 42)), Print (StatLine ''Median:'' (Fin 42)),
       Print (StatLine ''Avg:'' (Fin 42)), Print (StatLine ''90pct:'' (Fin 42)),
       Print (StatLine ''Max:'' (Fin 42)), Print (StatLine ''Jitter:'' (Fin 0))],
      Inr ())"
  using main_negative_interval main_no_sessions cmd_sample by (simp add: NETPERF_def)

theorem C3_zero_interval_fails_first_witness:
  "interval ((sample_args 1)\<lparr>interval := Fin 0\<rparr>) = Fin 0
   \<and> main (sample_env [''12.5''] 0) ((sample_args 1)\<lparr>interval := Fin 0\<rparr>)
       = ([], Inl ZeroDivisionError)"
proof -
  have i: "interval ((sample_args 1)\<lparr>interval := Fin 0\<rparr>) = Fin 0" by simp
  have "int_to_float (length_arg ((sample_args 1)\<lparr>interval := Fin 0\<rparr>)) = Inr (Fin 5)"
    using int_to_float_small [of 5] by (simp add: sample_args_def)
  then show ?thesis
    using C3_zero_interval_fails_first [OF i, of "sample_env [''12.5''] 0"] by simp
qed

subsection \<open>Sessions\<close>

text \<open>
  Claim C4, as amended. When all sessions have been launched and the standard output of one
  of them is not a float once stripped (not a number, or empty), awaiting the results
  raises \<open>ValueError\<close>: the run ends there and no line of the statistics report is
  printed. The exit status of a session is never read: replacing every status by another
  changes nothing of the run.
\<close>

theorem C4_unparsed_output_fatal:
  assumes "\<not> idle a"
    and "derived_timing (length_arg a) (interval a) = Inr (count, cd)"
    and "launch_all ev (proto a) (host a)
           (if direction a = ''up'' then ''TCP_STREAM'' else ''TCP_MAERTS'')
           (cd + warmup a + 2) 0 (nat (num a)) = (t1, Inr procs)"
    and "p \<in> set procs" and "py_float (strip (stdout p)) = Inl e"
  shows "snd (main ev a) = Inl ValueError
       \<and> filter is_report (fst (main ev a)) = []
       \<and> main (ev\<lparr>create_subprocess_exec :=
                 \<lambda>k c. map_sum id (returncode_update f) (create_subprocess_exec ev k c)\<rparr>) a
           = main ev a"
proof -
  obtain rate where rate: "py_truediv 1 (interval a) = Inr rate"
    using timing_rate [OF assms(2)] by blast
  have g: "gather (map get_netperf procs) = Inl ValueError"
    using assms(4,5) by (intro gather_error [of p procs e]) (simp_all add: get_netperf_def)
  note fl = launch_all_filters [OF assms(3)]
  have "main ev a =
      ([Print (NetperfsLine (num a) (if proto a = 4 then ''ipv4'' else ''ipv6'') (direction a)
                 (host a) (ping a) rate cd)] @ t1
         @ (if 0 < warmup a then [Print (WarmingUpLine (warmup a)), Sleep (warmup a)] else [])
         @ [Print RunningTestLine, AsyncPing (ping a) count (interval a)],
       Inl ValueError)"
    using assms(1,2,3) g by (simp add: main_def Let_def rate)
  then show ?thesis using fl by (simp add: main_returncode)
qed

text \<open>
  A session that exits with status 1 after writing a number is not a failure: the run
  ends normally with the full report.
\<close>

theorem C4_counterexample:
  "create_subprocess_exec (sample_env [''12.5''] 1) 0
       ''-4 -H netperf-west.bufferbloat.net -t TCP_STREAM -l 7 -v 0 -P 0''
     = Inr \<lparr>stdout = ''12.5'', returncode = 1\<rparr>
   \<and> main (sample_env [''12.5''] 1) (sample_args 1) =
     ([Print (NetperfsLine 1 ''ipv4'' ''up'' ''netperf-west.bufferbloat.net'' ''1.1.1.1'' (Fin 1) 5),
       CreateSubprocess ''netperf''
         ''-4 -H netperf-west.bufferbloat.net -t TCP_STREAM -l 7 -v 0 -P 0'',
       Print RunningTestLine,
       AsyncPing ''1.1.1.1'' 5 (Fin 1),
       Print (SpeedLine ''Upload'' (PyFloat (Fin (25 / 2)))),
       Print (LatencyLine 1 (Fin 0)), Print (StatLine ''Min:'' (Fin 42)),
       Print (StatLine ''10pct:'' (Fin 42)), Print (StatLine ''Median:'' (Fin 42)),
       Print (StatLine ''Avg:'' (Fin 42)), Print (StatLine ''90pct:'' (Fin 42)),
       Print (StatLine ''Max:'' (Fin 42)), Print (StatLine ''Jitter:'' (Fin 0))],
      Inr ())"
  using main_sample_run [of 1] cmd_sample by (simp add: NETPERF_def sample_env_def)

theorem C4_unparsed_output_fatal_witness:
  "\<not> idle (sample_args 1)
   \<and> derived_timing (length_arg (sample_args 1)) (interval (sample_args 1)) = Inr (5, 5)
   \<and> py_float (strip (stdout \<lparr>stdout = ''abc'', returncode = 0\<rparr>)) = Inl ValueError
   \<and> snd (main (sample_env [''abc''] 0) (sample_args 1)) = Inl ValueError
   \<and> filter is_report (fst (main (sample_env [''abc''] 0) (sample_args 1))) = []"
proof -
  have 1: "\<not> idle (sample_args 1)" by (simp add: sample_args_def)
  have 2: "derived_timing (length_arg (sample_args 1)) (interval (sample_args 1)) = Inr (5, 5)"
    using timing_5_1 by (simp add: sample_args_def)
  have 3: "launch_all (sample_env [''abc''] 0) (proto (sample_args 1)) (host (sample_args 1))
      (if direction (sample_args 1) = ''up'' then ''TCP_STREAM'' else ''TCP_MAERTS'')
      (5 + warmup (sample_args 1) + 2) 0 (nat (num (sample_args 1)))
     = ([CreateSubprocess NETPERF (netperf_cmd 4 ''netperf-west.bufferbloat.net'' ''TCP_STREAM'' 7)],
        Inr [\<lparr>stdout = ''abc'', returncode = 0\<rparr>])"
    using launch_sample_1 [of "''abc''" 0 4 "''netperf-west.bufferbloat.net''" "''TCP_STREAM''" 7]
    by (simp add: sample_args_def)
  have 4: "\<lparr>stdout = ''abc'', returncode = 0\<rparr> \<in> set [\<lparr>stdout = ''abc'', returncode = 0\<rparr>]"
    by simp
  have 5: "py_float (strip (stdout \<lparr>stdout = ''abc'', returncode = 0\<rparr>)) = Inl ValueError"
    using get_abc [of 0] by (simp add: get_netperf_def)
  show ?thesis
    using 1 2 5 C4_unparsed_output_fatal [OF 1 2 3 4 5] by simp
qed

text \<open>
  Claim C5. In load mode, when the timing is computed with duration \<open>cd\<close>, every netperf
  the run launches gets the command line of \<open>run_netperf\<close> with the length
  \<open>cd + warmup + 2\<close>; there are at most \<open>num\<close> of them, and exactly \<open>num\<close> when no
  launch fails.
\<close>

theorem C5_session_length:
  assumes "\<not> idle a" and "derived_timing (length_arg a) (interval a) = Inr (count, cd)"
  shows "(\<exists>n\<le>nat (num a). filter is_launch (fst (main ev a)) =
            replicate n (CreateSubprocess NETPERF
              (netperf_cmd (proto a) (host a)
                 (if direction a = ''up'' then ''TCP_STREAM'' else ''TCP_MAERTS'')
                 (cd + warmup a + 2))))
         \<and> ((\<forall>k c. \<exists>p. create_subprocess_exec ev k c = Inr p) \<longrightarrow>
              filter is_launch (fst (main ev a)) =
                replicate (nat (num a)) (CreateSubprocess NETPERF
                  (netperf_cmd (proto a) (host a)
                     (if direction a = ''up'' then ''TCP_STREAM'' else ''TCP_MAERTS'')
                     (cd + warmup a + 2))))"
proof -
  define d where "d = (if direction a = ''up'' then ''TCP_STREAM'' else ''TCP_MAERTS'')"
  obtain t1 r where l: "launch_all ev (proto a) (host a) d (cd + warmup a + 2) 0 (nat (num a)) = (t1, r)"
    by (cases "launch_all ev (proto a) (host a) d (cd + warmup a + 2) 0 (nat (num a))")
  have m: "filter is_launch (fst (main ev a)) = t1"
    using assms l unfolding d_def by (rule main_load_launches)
  have 1: "\<exists>n\<le>nat (num a). t1 = replicate n (CreateSubprocess NETPERF
              (netperf_cmd (proto a) (host a) d (cd + warmup a + 2)))"
    using l by (rule launch_all_events)
  have 2: "t1 = replicate (nat (num a)) (CreateSubprocess NETPERF
              (netperf_cmd (proto a) (host a) d (cd + warmup a + 2)))"
    if "\<forall>k c. \<exists>p. create_subprocess_exec ev k c = Inr p"
  proof -
    have "\<forall>j<nat (num a). \<exists>p. create_subprocess_exec ev (0 + j)
        (netperf_cmd (proto a) (host a) d (cd + warmup a + 2)) = Inr p"
      using that by blast
    then obtain t' procs where
      "launch_all ev (proto a) (host a) d (cd + warmup a + 2) 0 (nat (num a)) = (t', Inr procs)"
      using launch_all_total by blast
    then show ?thesis using launch_all_success l by fastforce
  qed
  show ?thesis using 1 2 unfolding m d_def by blast
qed

theorem C5_session_length_witness:
  "\<not> idle (sample_args 3)
   \<and> derived_timing (length_arg (sample_args 3)) (interval (sample_args 3)) = Inr (5, 5)
   \<and> (\<exists>n\<le>nat 3. filter is_launch (fst (main (sample_env [''10.0'', ''12.5'', ''9.8''] 0)
                                            (sample_args 3))) =
         replicate n (CreateSubprocess ''netperf''
           ''-4 -H netperf-west.bufferbloat.net -t TCP_STREAM -l 7 -v 0 -P 0''))"
proof -
  have 1: "\<not> idle (sample_args 3)" by (simp add: sample_args_def)
  have 2: "derived_timing (length_arg (sample_args 3)) (interval (sample_args 3)) = Inr (5, 5)"
    using timing_5_1 by (simp add: sample_args_def)
  show ?thesis
    using 1 2 cmd_sample
      C5_session_length [OF 1 2, of "sample_env [''10.0'', ''12.5'', ''9.8''] 0"]
    by (simp add: sample_args_def NETPERF_def)
qed

text \<open>
  Claim C6, as amended. In idle mode no netperf is launched and no throughput line is
  printed. When the timing of lines 46 and 47 fails, the run ends there, before any ping.
  When it is computed, with \<open>count\<close> pings, exactly one ping is started, for \<open>count\<close>
  pings at the interval against the ping host; if the ping fails the run ends with its
  error, and if it returns and the three percentiles are computed, the run prints the
  latency header and the seven statistics lines, without a throughput line, and ends
  normally.
\<close>

theorem C6_idle_mode:
  assumes "idle a"
  shows "filter is_launch (fst (main ev a)) = []
       \<and> filter is_speed_line (fst (main ev a)) = []
       \<and> (\<forall>e. derived_timing (length_arg a) (interval a) = Inl e \<longrightarrow> main ev a = ([], Inl e))
       \<and> (\<forall>count cd. derived_timing (length_arg a) (interval a) = Inr (count, cd) \<longrightarrow>
            filter is_probe (fst (main ev a)) = [AsyncPing (ping a) count (interval a)]
          \<and> (\<forall>e. async_ping ev (ping a) count (interval a) = Inl e \<longrightarrow>
                main ev a =
                  ([Print (PingingLine (ping a) count (interval a) cd),
                    AsyncPing (ping a) count (interval a)],
                   Inl e))
          \<and> (\<forall>res p10 p50 p90.
                async_ping ev (ping a) count (interval a) = Inr res
                \<and> percentile ev (sort (rtts res)) 10 = Inr p10
                \<and> percentile ev (sort (rtts res)) 50 = Inr p50
                \<and> percentile ev (sort (rtts res)) 90 = Inr p90 \<longrightarrow>
                main ev a =
                  ([Print (PingingLine (ping a) count (interval a) cd),
                    AsyncPing (ping a) count (interval a),
                    Print (LatencyLine (packets_sent res) (fmul (packet_loss res) (Fin 100))),
                    Print (StatLine ''Min:'' (min_rtt res)),
                    Print (StatLine ''10pct:'' p10),
                    Print (StatLine ''Median:'' p50),
                    Print (StatLine ''Avg:'' (avg_rtt res)),
                    Print (StatLine ''90pct:'' p90),
                    Print (StatLine ''Max:'' (max_rtt res)),
                    Print (StatLine ''Jitter:'' (jitter res))],
                   Inr ())))"
proof (intro conjI allI impI)
  show "filter is_launch (fst (main ev a)) = []"
    using assms by (rule main_idle_no_launch)
  show "filter is_speed_line (fst (main ev a)) = []"
    using assms by (rule main_idle_no_speed_line)
next
  fix e
  assume "derived_timing (length_arg a) (interval a) = Inl e"
  then show "main ev a = ([], Inl e)" by (rule main_timing_error)
next
  fix count cd
  assume "derived_timing (length_arg a) (interval a) = Inr (count, cd)"
  with assms show "filter is_probe (fst (main ev a)) = [AsyncPing (ping a) count (interval a)]"
    by (rule main_idle_probe)
next
  fix count cd e
  assume "derived_timing (length_arg a) (interval a) = Inr (count, cd)"
    and "async_ping ev (ping a) count (interval a) = Inl e"
  with assms show "main ev a =
      ([Print (PingingLine (ping a) count (interval a) cd),
        AsyncPing (ping a) count (interval a)],
       Inl e)"
    by (rule main_idle_ping_error)
next
  fix count cd res p10 p50 p90
  assume t: "derived_timing (length_arg a) (interval a) = Inr (count, cd)"
    and r: "async_ping ev (ping a) count (interval a) = Inr res
      \<and> percentile ev (sort (rtts res)) 10 = Inr p10
      \<and> percentile ev (sort (rtts res)) 50 = Inr p50
      \<and> percentile ev (sort (rtts res)) 90 = Inr p90"
  show "main ev a =
      ([Print (PingingLine (ping a) count (interval a) cd),
        AsyncPing (ping a) count (interval a),
        Print (LatencyLine (packets_sent res) (fmul (packet_loss res) (Fin 100))),
        Print (StatLine ''Min:'' (min_rtt res)),
        Print (StatLine ''10pct:'' p10),
        Print (StatLine ''Median:'' p50),
        Print (StatLine ''Avg:'' (avg_rtt res)),
        Print (StatLine ''90pct:'' p90),
        Print (StatLine ''Max:'' (max_rtt res)),
        Print (StatLine ''Jitter:'' (jitter res))],
       Inr ())"
    using assms t r by (intro main_idle_run) simp_all
qed

text \<open>
  As the claim was stated it fails for an idle run with an interval of zero: the division
  of line 46 raises, and no ping is started.
\<close>

theorem C6_counterexample:
  "idle ((sample_args 0)\<lparr>interval := Fin 0, idle := True\<rparr>)
   \<and> main (sample_env [] 0) ((sample_args 0)\<lparr>interval := Fin 0, idle := True\<rparr>)
       = ([], Inl ZeroDivisionError)
   \<and> filter is_probe
         (fst (main (sample_env [] 0) ((sample_args 0)\<lparr>interval := Fin 0, idle := True\<rparr>))) = []"
  using int_to_float_small [of 5]
  by (simp add: main_def derived_timing_def py_truediv_def sample_args_def)

theorem C6_idle_mode_witness:
  "idle ((sample_args 0)\<lparr>idle := True\<rparr>)
   \<and> derived_timing 5 (Fin 1) = Inr (5, 5)
   \<and> filter is_launch (fst (main (sample_env [] 0) ((sample_args 0)\<lparr>idle := True\<rparr>))) = []
   \<and> filter is_speed_line (fst (main (sample_env [] 0) ((sample_args 0)\<lparr>idle := True\<rparr>))) = []
   \<and> filter is_probe (fst (main (sample_env [] 0) ((sample_args 0)\<lparr>idle := True\<rparr>)))
       = [AsyncPing ''1.1.1.1'' 5 (Fin 1)]
   \<and> main (sample_env [] 0) ((sample_args 0)\<lparr>idle := True\<rparr>) =
       ([Print (PingingLine ''1.1.1.1'' 5 (Fin 1) 5),
         AsyncPing ''1.1.1.1'' 5 (Fin 1),
         Print (LatencyLine 1 (Fin 0)), Print (StatLine ''Min:'' (Fin 42)),
         Print (StatLine ''10pct:'' (Fin 42)), Print (StatLine ''Median:'' (Fin 42)),
         Print (StatLine ''Avg:'' (Fin 42)), Print (StatLine ''90pct:'' (Fin 42)),
         Print (StatLine ''Max:'' (Fin 42)), Print (StatLine ''Jitter:'' (Fin 0))],
        Inr ())"
proof -
  have 1: "idle ((sample_args 0)\<lparr>idle := True\<rparr>)" by simp
  have 2: "derived_timing (length_arg ((sample_args 0)\<lparr>idle := True\<rparr>))
      (interval ((sample_args 0)\<lparr>idle := True\<rparr>)) = Inr (5, 5)"
    using timing_5_1 by (simp add: sample_args_def)
  have 3: "ping ((sample_args 0)\<lparr>idle := True\<rparr>) = ''1.1.1.1''"
    "interval ((sample_args 0)\<lparr>idle := True\<rparr>) = Fin 1"
    by (simp_all add: sample_args_def)
  have 4: "async_ping (sample_env [] 0) (ping ((sample_args 0)\<lparr>idle := True\<rparr>)) 5
      (interval ((sample_args 0)\<lparr>idle := True\<rparr>)) = Inr one_sample
    \<and> percentile (sample_env [] 0) (sort (rtts one_sample)) 10 = Inr (Fin 42)
    \<and> percentile (sample_env [] 0) (sort (rtts one_sample)) 50 = Inr (Fin 42)
    \<and> percentile (sample_env [] 0) (sort (rtts one_sample)) 90 = Inr (Fin 42)"
    by (simp add: sample_env_def one_sample_def percentile_one)
  note c = C6_idle_mode [OF 1, of "sample_env [] 0"]
  have 5: "main (sample_env [] 0) ((sample_args 0)\<lparr>idle := True\<rparr>) =
       ([Print (PingingLine ''1.1.1.1'' 5 (Fin 1) 5),
         AsyncPing ''1.1.1.1'' 5 (Fin 1),
         Print (LatencyLine 1 (Fin 0)), Print (StatLine ''Min:'' (Fin 42)),
         Print (StatLine ''10pct:'' (Fin 42)), Print (StatLine ''Median:'' (Fin 42)),
         Print (StatLine ''Avg:'' (Fin 42)), Print (StatLine ''90pct:'' (Fin 42)),
         Print (StatLine ''Max:'' (Fin 42)), Print (StatLine ''Jitter:'' (Fin 0))],
        Inr ())"
    using c [THEN conjunct2, THEN conjunct2, THEN conjunct2, rule_format, OF 2,
        THEN conjunct2, THEN conjunct2, rule_format, OF 4] rd_zero
    by (simp add: 3 one_sample_def)
  show ?thesis
    using 1 2 5 timing_5_1 c by (simp add: 3)
qed

text \<open>
  Claim C7. In a load-mode run that reaches the report, the speed handed to
  \<open>print_result\<close>, and printed on the throughput line, is \<open>sum\<close> of the sessions'
  results in launch order. That sum is the arithmetic sum whenever no addition rounds, and
  for the results 10.0, 12.5 and 9.8 it is the double 32.3.
\<close>

theorem C7_aggregate_is_sum:
  assumes "\<not> idle a"
    and "derived_timing (length_arg a) (interval a) = Inr (count, cd)"
    and "launch_all ev (proto a) (host a)
           (if direction a = ''up'' then ''TCP_STREAM'' else ''TCP_MAERTS'')
           (cd + warmup a + 2) 0 (nat (num a)) = (t1, Inr procs)"
    and "gather (map get_netperf procs) = Inr speeds"
    and "async_ping ev (ping a) count (interval a) = Inr res"
  shows "filter is_report (fst (main ev a))
           = fst (print_result (percentile ev) a res (py_sum speeds))
       \<and> filter is_speed_line (fst (main ev a))
           = (if truthy (py_sum speeds)
              then [Print (SpeedLine (if direction a = ''up'' then ''Upload'' else ''Download'')
                             (py_sum speeds))]
              else [])
       \<and> (\<forall>xs. speeds = map Fin xs \<and> xs \<noteq> [] \<and> exact_sums 0 xs \<longrightarrow>
             py_sum speeds = PyFloat (Fin (sum_list xs)))
       \<and> py_sum [round_double 10, round_double (25 / 2), round_double (98 / 10)]
           = PyFloat (round_double (323 / 10))"
proof -
  obtain rate where rate: "py_truediv 1 (interval a) = Inr rate"
    using timing_rate [OF assms(2)] by blast
  note m = main_load_report [OF assms rate]
  note fl = launch_all_filters [OF assms(3)]
  obtain t r where pr: "print_result (percentile ev) a res (py_sum speeds) = (t, r)"
    by (cases "print_result (percentile ev) a res (py_sum speeds)")
  note fp = print_result_filters [OF pr]
  have sp: "filter is_speed_line t = (if truthy (py_sum speeds)
              then [Print (SpeedLine (if direction a = ''up'' then ''Upload'' else ''Download'')
                             (py_sum speeds))]
              else [])"
    using print_result_speed_lines [of "percentile ev" a res "py_sum speeds"] by (simp add: pr)
  have 1: "filter is_report (fst (main ev a))
           = fst (print_result (percentile ev) a res (py_sum speeds))"
    using fl fp by (simp add: m pr)
  have 2: "filter is_speed_line (fst (main ev a))
           = (if truthy (py_sum speeds)
              then [Print (SpeedLine (if direction a = ''up'' then ''Upload'' else ''Download'')
                             (py_sum speeds))]
              else [])"
    using fl sp by (simp add: m pr)
  have 3: "\<forall>xs. speeds = map Fin xs \<and> xs \<noteq> [] \<and> exact_sums 0 xs \<longrightarrow>
             py_sum speeds = PyFloat (Fin (sum_list xs))"
    using py_sum_exact by blast
  have 4: "py_sum [round_double 10, round_double (25 / 2), round_double (98 / 10)]
           = PyFloat (round_double (323 / 10))"
    using sum_example by simp
  show ?thesis using 1 2 3 4 by blast
qed

theorem C7_aggregate_is_sum_witness:
  "\<not> idle (sample_args 3)
   \<and> derived_timing (length_arg (sample_args 3)) (interval (sample_args 3)) = Inr (5, 5)
   \<and> gather (map get_netperf
        [\<lparr>stdout = ''10.0'', returncode = 0\<rparr>, \<lparr>stdout = ''12.5'', returncode = 0\<rparr>,
         \<lparr>stdout = ''9.8'', returncode = 0\<rparr>])
       = Inr [round_double 10, round_double (25 / 2), round_double (98 / 10)]
   \<and> filter is_speed_line (fst (main (sample_env [''10.0'', ''12.5'', ''9.8''] 0) (sample_args 3)))
       = [Print (SpeedLine ''Upload'' (PyFloat (round_double (323 / 10))))]"
proof -
  have 1: "\<not> idle (sample_args 3)" by (simp add: sample_args_def)
  have 2: "derived_timing (length_arg (sample_args 3)) (interval (sample_args 3)) = Inr (5, 5)"
    using timing_5_1 by (simp add: sample_args_def)
  have 3: "launch_all (sample_env [''10.0'', ''12.5'', ''9.8''] 0) (proto (sample_args 3))
      (host (sample_args 3))
      (if direction (sample_args 3) = ''up'' then ''TCP_STREAM'' else ''TCP_MAERTS'')
      (5 + warmup (sample_args 3) + 2) 0 (nat (num (sample_args 3)))
     = (replicate 3 (CreateSubprocess NETPERF
          (netperf_cmd 4 ''netperf-west.bufferbloat.net'' ''TCP_STREAM'' 7)),
        Inr [\<lparr>stdout = ''10.0'', returncode = 0\<rparr>, \<lparr>stdout = ''12.5'', returncode = 0\<rparr>,
             \<lparr>stdout = ''9.8'', returncode = 0\<rparr>])"
    using launch_sample_3 [of "''10.0''" "''12.5''" "''9.8''" 0 4
        "''netperf-west.bufferbloat.net''" "''TCP_STREAM''" 7]
    by (simp add: sample_args_def)
  have 4: "gather (map get_netperf
        [\<lparr>stdout = ''10.0'', returncode = 0\<rparr>, \<lparr>stdout = ''12.5'', returncode = 0\<rparr>,
         \<lparr>stdout = ''9.8'', returncode = 0\<rparr>])
       = Inr [round_double 10, round_double (25 / 2), round_double (98 / 10)]"
    using rd_12_5 by (simp add: get_netperf_def py_float_defs)
  have 5: "async_ping (sample_env [''10.0'', ''12.5'', ''9.8''] 0) (ping (sample_args 3)) 5
      (interval (sample_args 3)) = Inr one_sample"
    by (simp add: sample_env_def)
  have 6: "truthy (PyFloat (round_double (323 / 10)))"
    using rd_32_3 by simp
  show ?thesis
    using 1 2 4 6 sum_example C7_aggregate_is_sum [OF 1 2 3 4 5]
    by (simp add: sample_args_def)
qed

subsection \<open>The report\<close>

text \<open>
  Claim C8, as amended. \<open>print_result\<close> does not look at the number of samples. Given
  no sample, it prints the throughput line (if the speed is truthy), the latency header and
  the Min line, and only then asks for the first percentile; it fails if and only if
  the percentile routine does, after those lines are out.
\<close>

theorem C8_empty_samples_unchecked:
  "(\<exists>rest. fst (print_result pct a (res\<lparr>rtts := []\<rparr>) speed) =
       (if truthy speed
        then [Print (SpeedLine (if direction a = ''up'' then ''Upload'' else ''Download'') speed)]
        else [])
       @ [Print (LatencyLine (packets_sent res) (fmul (packet_loss res) (Fin 100))),
          Print (StatLine ''Min:'' (min_rtt res))]
       @ rest)
   \<and> snd (print_result pct a (res\<lparr>rtts := []\<rparr>) speed) =
       (case pct [] 10 of
          Inl e \<Rightarrow> Inl e
        | Inr p10 \<Rightarrow>
            (case pct [] 50 of
               Inl e \<Rightarrow> Inl e
             | Inr p50 \<Rightarrow> (case pct [] 90 of Inl e \<Rightarrow> Inl e | Inr p90 \<Rightarrow> Inr ())))"
  by (simp add: print_result_def Let_def split: sum.splits)

text \<open>
  With the percentile of the specification, which refuses an empty sample set, the header
  and the Min line are printed before the error.
\<close>

theorem C8_counterexample:
  "rtts no_sample = []
   \<and> print_result percentile_linear (sample_args 1) no_sample PyNone =
       ([Print (LatencyLine 5 (Fin 100)), Print (StatLine ''Min:'' (Fin 0))],
        Inl (ExternalError ''InsufficientDataError''))"
  using print_no_sample [of "sample_args 1"] by (simp add: no_sample_def)

text \<open>
  Claim C9. \<open>print_result\<close> prints the direction and Mbps line if and only if \<open>speed\<close>
  is truthy: the throughput lines of its output are that one line when \<open>speed\<close> is truthy
  and none otherwise. So a sum of 0.0 prints what \<open>None\<close> (idle mode) prints.
\<close>

theorem C9_speed_line_iff_truthy:
  "filter is_speed_line (fst (print_result pct a res speed)) =
     (if truthy speed
      then [Print (SpeedLine (if direction a = ''up'' then ''Upload'' else ''Download'') speed)]
      else [])
   \<and> print_result pct a res (PyFloat (Fin 0)) = print_result pct a res PyNone"
  by (simp add: print_result_def Let_def split: sum.splits)

text \<open>
  Claim C10. For every direction other than the text \<open>up\<close>: each netperf launched gets
  \<open>TCP_MAERTS\<close>, and when no launch fails all \<open>num\<close> of them are launched with it; a
  throughput line is labelled \<open>Download\<close>; no value of the flag is rejected, the run ends
  as it does for \<open>down\<close>, and a load-mode run whose sessions, ping and percentiles succeed
  ends normally with the report, its throughput line (printed when the sum is truthy)
  labelled \<open>Download\<close>.
\<close>

theorem C10_direction_default:
  assumes "direction a \<noteq> ''up''"
  shows "(\<forall>count cd. derived_timing (length_arg a) (interval a) = Inr (count, cd) \<longrightarrow>
            (\<exists>n\<le>nat (num a). filter is_launch (fst (main ev a)) =
               replicate n (CreateSubprocess NETPERF
                 (netperf_cmd (proto a) (host a) ''TCP_MAERTS'' (cd + warmup a + 2)))))
       \<and> (\<forall>d s. Print (SpeedLine d s) \<in> set (fst (main ev a)) \<longrightarrow> d = ''Download'')
       \<and> snd (main ev a) = snd (main ev (a\<lparr>direction := ''down''\<rparr>))
       \<and> (\<forall>count cd procs.
            \<not> idle a
            \<and> derived_timing (length_arg a) (interval a) = Inr (count, cd)
            \<and> length procs = nat (num a)
            \<and> (\<forall>j<nat (num a). create_subprocess_exec ev j
                    (netperf_cmd (proto a) (host a) ''TCP_MAERTS'' (cd + warmup a + 2))
                  = Inr (procs ! j)) \<longrightarrow>
            filter is_launch (fst (main ev a)) =
              replicate (nat (num a)) (CreateSubprocess NETPERF
                (netperf_cmd (proto a) (host a) ''TCP_MAERTS'' (cd + warmup a + 2)))
          \<and> (\<forall>speeds res p10 p50 p90.
                map get_netperf procs = map Inr speeds
                \<and> async_ping ev (ping a) count (interval a) = Inr res
                \<and> percentile ev (sort (rtts res)) 10 = Inr p10
                \<and> percentile ev (sort (rtts res)) 50 = Inr p50
                \<and> percentile ev (sort (rtts res)) 90 = Inr p90 \<longrightarrow>
                (\<exists>rate. py_truediv 1 (interval a) = Inr rate \<and> main ev a =
                  ([Print (NetperfsLine (num a) (if proto a = 4 then ''ipv4'' else ''ipv6'')
                             (direction a) (host a) (ping a) rate cd)]
                   @ replicate (nat (num a)) (CreateSubprocess NETPERF
                       (netperf_cmd (proto a) (host a) ''TCP_MAERTS'' (cd + warmup a + 2)))
                   @ (if 0 < warmup a
                      then [Print (WarmingUpLine (warmup a)), Sleep (warmup a)] else [])
                   @ [Print RunningTestLine, AsyncPing (ping a) count (interval a)]
                   @ (if truthy (py_sum speeds)
                      then [Print (SpeedLine ''Download'' (py_sum speeds))] else [])
                   @ [Print (LatencyLine (packets_sent res) (fmul (packet_loss res) (Fin 100))),
                      Print (StatLine ''Min:'' (min_rtt res)),
                      Print (StatLine ''10pct:'' p10),
                      Print (StatLine ''Median:'' p50),
                      Print (StatLine ''Avg:'' (avg_rtt res)),
                      Print (StatLine ''90pct:'' p90),
                      Print (StatLine ''Max:'' (max_rtt res)),
                      Print (StatLine ''Jitter:'' (jitter res))],
                   Inr ()))))"
proof (intro conjI allI impI)
  fix count cd
  assume t: "derived_timing (length_arg a) (interval a) = Inr (count, cd)"
  show "\<exists>n\<le>nat (num a). filter is_launch (fst (main ev a)) =
          replicate n (CreateSubprocess NETPERF
            (netperf_cmd (proto a) (host a) ''TCP_MAERTS'' (cd + warmup a + 2)))"
  proof (cases "idle a")
    case True
    then have "filter is_launch (fst (main ev a)) = replicate 0 (CreateSubprocess NETPERF
            (netperf_cmd (proto a) (host a) ''TCP_MAERTS'' (cd + warmup a + 2)))"
      by (simp add: main_idle_no_launch)
    then show ?thesis by blast
  next
    case False
    obtain t1 r where l: "launch_all ev (proto a) (host a)
           (if direction a = ''up'' then ''TCP_STREAM'' else ''TCP_MAERTS'')
           (cd + warmup a + 2) 0 (nat (num a)) = (t1, r)"
      by (cases "launch_all ev (proto a) (host a)
           (if direction a = ''up'' then ''TCP_STREAM'' else ''TCP_MAERTS'')
           (cd + warmup a + 2) 0 (nat (num a))")
    have "filter is_launch (fst (main ev a)) = t1"
      using False t l by (rule main_load_launches)
    then show ?thesis using launch_all_events [OF l] assms by simp
  qed
next
  fix d s
  assume "Print (SpeedLine d s) \<in> set (fst (main ev a))"
  then have "d = (if direction a = ''up'' then ''Upload'' else ''Download'')"
    by (rule main_speed_label)
  then show "d = ''Download''" using assms by simp
next
  show "snd (main ev a) = snd (main ev (a\<lparr>direction := ''down''\<rparr>))"
    using main_snd_direction [OF assms, of "''down''" ev] by simp
next
  fix count cd procs
  assume h: "\<not> idle a
      \<and> derived_timing (length_arg a) (interval a) = Inr (count, cd)
      \<and> length procs = nat (num a)
      \<and> (\<forall>j<nat (num a). create_subprocess_exec ev j
              (netperf_cmd (proto a) (host a) ''TCP_MAERTS'' (cd + warmup a + 2))
            = Inr (procs ! j))"
  then have "\<forall>j<nat (num a). create_subprocess_exec ev (0 + j)
              (netperf_cmd (proto a) (host a) ''TCP_MAERTS'' (cd + warmup a + 2))
            = Inr (procs ! j)"
    by simp
  then have "launch_all ev (proto a) (host a) ''TCP_MAERTS'' (cd + warmup a + 2) 0 (nat (num a))
      = (replicate (nat (num a)) (CreateSubprocess NETPERF
          (netperf_cmd (proto a) (host a) ''TCP_MAERTS'' (cd + warmup a + 2))), Inr procs)"
    using h by (intro launch_all_env) simp
  then have l: "launch_all ev (proto a) (host a)
           (if direction a = ''up'' then ''TCP_STREAM'' else ''TCP_MAERTS'')
           (cd + warmup a + 2) 0 (nat (num a))
      = (replicate (nat (num a)) (CreateSubprocess NETPERF
          (netperf_cmd (proto a) (host a) ''TCP_MAERTS'' (cd + warmup a + 2))), Inr procs)"
    using assms by simp
  show "filter is_launch (fst (main ev a)) =
          replicate (nat (num a)) (CreateSubprocess NETPERF
            (netperf_cmd (proto a) (host a) ''TCP_MAERTS'' (cd + warmup a + 2)))"
    using h l by (intro main_load_launches) simp_all
next
  fix count cd procs speeds res p10 p50 p90
  assume h: "\<not> idle a
      \<and> derived_timing (length_arg a) (interval a) = Inr (count, cd)
      \<and> length procs = nat (num a)
      \<and> (\<forall>j<nat (num a). create_subprocess_exec ev j
              (netperf_cmd (proto a) (host a) ''TCP_MAERTS'' (cd + warmup a + 2))
            = Inr (procs ! j))"
    and r: "map get_netperf procs = map Inr speeds
      \<and> async_ping ev (ping a) count (interval a) = Inr res
      \<and> percentile ev (sort (rtts res)) 10 = Inr p10
      \<and> percentile ev (sort (rtts res)) 50 = Inr p50
      \<and> percentile ev (sort (rtts res)) 90 = Inr p90"
  have d: "(if direction a = ''up'' then x else y) = y" for x y :: string
    using assms by simp
  have s: "\<forall>j<nat (num a). create_subprocess_exec ev j
            (netperf_cmd (proto a) (host a)
               (if direction a = ''up'' then ''TCP_STREAM'' else ''TCP_MAERTS'')
               (cd + warmup a + 2)) = Inr (procs ! j)"
    using h by (simp only: d) blast
  have "\<exists>rate. py_truediv 1 (interval a) = Inr rate \<and> main ev a =
     ([Print (NetperfsLine (num a) (if proto a = 4 then ''ipv4'' else ''ipv6'') (direction a)
                (host a) (ping a) rate cd)]
      @ replicate (nat (num a)) (CreateSubprocess NETPERF
          (netperf_cmd (proto a) (host a)
             (if direction a = ''up'' then ''TCP_STREAM'' else ''TCP_MAERTS'')
             (cd + warmup a + 2)))
      @ (if 0 < warmup a then [Print (WarmingUpLine (warmup a)), Sleep (warmup a)] else [])
      @ [Print RunningTestLine, AsyncPing (ping a) count (interval a)]
      @ (if truthy (py_sum speeds)
         then [Print (SpeedLine (if direction a = ''up'' then ''Upload'' else ''Download'')
                        (py_sum speeds))]
         else [])
      @ [Print (LatencyLine (packets_sent res) (fmul (packet_loss res) (Fin 100))),
         Print (StatLine ''Min:'' (min_rtt res)),
         Print (StatLine ''10pct:'' p10),
         Print (StatLine ''Median:'' p50),
         Print (StatLine ''Avg:'' (avg_rtt res)),
         Print (StatLine ''90pct:'' p90),
         Print (StatLine ''Max:'' (max_rtt res)),
         Print (StatLine ''Jitter:'' (jitter res))],
      Inr ())"
    using main_load_run [OF h [THEN conjunct1] h [THEN conjunct2, THEN conjunct1]
        h [THEN conjunct2, THEN conjunct2, THEN conjunct1] s
        r [THEN conjunct1] r [THEN conjunct2, THEN conjunct1]
        r [THEN conjunct2, THEN conjunct2, THEN conjunct1]
        r [THEN conjunct2, THEN conjunct2, THEN conjunct2, THEN conjunct1]
        r [THEN conjunct2, THEN conjunct2, THEN conjunct2, THEN conjunct2]] .
  then show "\<exists>rate. py_truediv 1 (interval a) = Inr rate \<and> main ev a =
     ([Print (NetperfsLine (num a) (if proto a = 4 then ''ipv4'' else ''ipv6'')
                (direction a) (host a) (ping a) rate cd)]
      @ replicate (nat (num a)) (CreateSubprocess NETPERF
          (netperf_cmd (proto a) (host a) ''TCP_MAERTS'' (cd + warmup a + 2)))
      @ (if 0 < warmup a
         then [Print (WarmingUpLine (warmup a)), Sleep (warmup a)] else [])
      @ [Print RunningTestLine, AsyncPing (ping a) count (interval a)]
      @ (if truthy (py_sum speeds)
         then [Print (SpeedLine ''Download'' (py_sum speeds))] else [])
      @ [Print (LatencyLine (packets_sent res) (fmul (packet_loss res) (Fin 100))),
         Print (StatLine ''Min:'' (min_rtt res)),
         Print (StatLine ''10pct:'' p10),
         Print (StatLine ''Median:'' p50),
         Print (StatLine ''Avg:'' (avg_rtt res)),
         Print (StatLine ''90pct:'' p90),
         Print (StatLine ''Max:'' (max_rtt res)),
         Print (StatLine ''Jitter:'' (jitter res))],
      Inr ())"
    by (simp only: d)
qed

theorem C10_direction_default_witness:
  "direction ((sample_args 1)\<lparr>direction := ''sideways''\<rparr>) \<noteq> ''up''
   \<and> main (sample_env [''12.5''] 0) ((sample_args 1)\<lparr>direction := ''sideways''\<rparr>) =
       ([Print (NetperfsLine 1 ''ipv4'' ''sideways'' ''netperf-west.bufferbloat.net''
                  ''1.1.1.1'' (Fin 1) 5),
         CreateSubprocess ''netperf''
           ''-4 -H netperf-west.bufferbloat.net -t TCP_MAERTS -l 7 -v 0 -P 0'',
         Print RunningTestLine,
         AsyncPing ''1.1.1.1'' 5 (Fin 1),
         Print (SpeedLine ''Download'' (PyFloat (Fin (25 / 2)))),
         Print (LatencyLine 1 (Fin 0)), Print (StatLine ''Min:'' (Fin 42)),
         Print (StatLine ''10pct:'' (Fin 42)), Print (StatLine ''Median:'' (Fin 42)),
         Print (StatLine ''Avg:'' (Fin 42)), Print (StatLine ''90pct:'' (Fin 42)),
         Print (StatLine ''Max:'' (Fin 42)), Print (StatLine ''Jitter:'' (Fin 0))],
        Inr ())
   \<and> snd (main (sample_env [''12.5''] 0) ((sample_args 1)\<lparr>direction := ''sideways''\<rparr>))
       = snd (main (sample_env [''12.5''] 0) ((sample_args 1)\<lparr>direction := ''down''\<rparr>))"
proof -
  let ?a = "(sample_args 1)\<lparr>direction := ''sideways''\<rparr>"
  let ?ev = "sample_env [''12.5''] 0"
  let ?procs = "[\<lparr>stdout = ''12.5'', returncode = 0\<rparr>]"
  have 1: "direction ?a \<noteq> ''up''" by simp
  note c = C10_direction_default [OF 1, of ?ev]
  have f: "proto ?a = 4" "host ?a = ''netperf-west.bufferbloat.net''" "ping ?a = ''1.1.1.1''"
    "direction ?a = ''sideways''" "interval ?a = Fin 1" "warmup ?a = 0" "num ?a = 1"
    "length_arg ?a = 5"
    by (simp_all add: sample_args_def)
  have 2: "\<not> idle ?a
      \<and> derived_timing (length_arg ?a) (interval ?a) = Inr (5, 5)
      \<and> length ?procs = nat (num ?a)
      \<and> (\<forall>j<nat (num ?a). create_subprocess_exec ?ev j
              (netperf_cmd (proto ?a) (host ?a) ''TCP_MAERTS'' (5 + warmup ?a + 2))
            = Inr (?procs ! j))"
    using timing_5_1 by (simp add: sample_args_def sample_env_def)
  have 3: "map get_netperf ?procs = map Inr [Fin (25 / 2)]
      \<and> async_ping ?ev (ping ?a) 5 (interval ?a) = Inr one_sample
      \<and> percentile ?ev (sort (rtts one_sample)) 10 = Inr (Fin 42)
      \<and> percentile ?ev (sort (rtts one_sample)) 50 = Inr (Fin 42)
      \<and> percentile ?ev (sort (rtts one_sample)) 90 = Inr (Fin 42)"
    by (simp add: get_12_5 sample_env_def one_sample_def percentile_one)
  have "\<exists>rate. py_truediv 1 (interval ?a) = Inr rate \<and> main ?ev ?a =
      ([Print (NetperfsLine (num ?a) (if proto ?a = 4 then ''ipv4'' else ''ipv6'')
                 (direction ?a) (host ?a) (ping ?a) rate 5)]
       @ replicate (nat (num ?a)) (CreateSubprocess NETPERF
           (netperf_cmd (proto ?a) (host ?a) ''TCP_MAERTS'' (5 + warmup ?a + 2)))
       @ (if 0 < warmup ?a
          then [Print (WarmingUpLine (warmup ?a)), Sleep (warmup ?a)] else [])
       @ [Print RunningTestLine, AsyncPing (ping ?a) 5 (interval ?a)]
       @ (if truthy (py_sum [Fin (25 / 2)])
          then [Print (SpeedLine ''Download'' (py_sum [Fin (25 / 2)]))] else [])
       @ [Print (LatencyLine (packets_sent one_sample) (fmul (packet_loss one_sample) (Fin 100))),
          Print (StatLine ''Min:'' (min_rtt one_sample)),
          Print (StatLine ''10pct:'' (Fin 42)),
          Print (StatLine ''Median:'' (Fin 42)),
          Print (StatLine ''Avg:'' (avg_rtt one_sample)),
          Print (StatLine ''90pct:'' (Fin 42)),
          Print (StatLine ''Max:'' (max_rtt one_sample)),
          Print (StatLine ''Jitter:'' (jitter one_sample))],
       Inr ())"
    using c [THEN conjunct2, THEN conjunct2, THEN conjunct2, rule_format, OF 2,
        THEN conjunct2, rule_format, OF 3] .
  then have 4: "main ?ev ?a =
       ([Print (NetperfsLine 1 ''ipv4'' ''sideways'' ''netperf-west.bufferbloat.net''
                  ''1.1.1.1'' (Fin 1) 5),
         CreateSubprocess ''netperf''
           ''-4 -H netperf-west.bufferbloat.net -t TCP_MAERTS -l 7 -v 0 -P 0'',
         Print RunningTestLine,
         AsyncPing ''1.1.1.1'' 5 (Fin 1),
         Print (SpeedLine ''Download'' (PyFloat (Fin (25 / 2)))),
         Print (LatencyLine 1 (Fin 0)), Print (StatLine ''Min:'' (Fin 42)),
         Print (StatLine ''10pct:'' (Fin 42)), Print (StatLine ''Median:'' (Fin 42)),
         Print (StatLine ''Avg:'' (Fin 42)), Print (StatLine ''90pct:'' (Fin 42)),
         Print (StatLine ''Max:'' (Fin 42)), Print (StatLine ''Jitter:'' (Fin 0))],
        Inr ())"
    using rate_1 rd_12_5 rd_zero cmd_sample_down
    by (auto simp add: f one_sample_def NETPERF_def)
  have 5: "snd (main ?ev ?a) = snd (main ?ev ((sample_args 1)\<lparr>direction := ''down''\<rparr>))"
    using c by simp
  show ?thesis using 1 4 5 by blast
qed

end
